theory Spec2Isabelle
  imports Main
begin

section \<open>Data model of \<open>verification/models.py\<close>\<close>

text \<open>
  A \<open>datetime\<close> is a count of microseconds since 1970-01-01T00:00:00 (UTC) and a
  \<open>timedelta\<close> is a difference of two such counts. The clock \<open>tznow()\<close> is a parameter
  \<open>now\<close> of every operation that reads it. A claimant is the primary key of a row of
  \<open>AUTH_USER_MODEL\<close>.
\<close>

type_synonym datetime = int
type_synonym user = nat

text \<open>
  \<open>class KeyGroup(models.Model)\<close>: \<open>name\<close> is the primary key, \<open>ttl\<close> is nullable.
\<close>

record KeyGroup =
  name :: string
  ttl :: "int option"
  generator :: string
  has_fact :: bool

text \<open>
  \<open>class Key(AbstractKey)\<close>. \<open>pk\<close> is the automatic \<open>id\<close> column, absent on an instance
  that was never saved; \<open>group_id\<close> is the column of the foreign key \<open>group\<close>;
  \<open>pub_date\<close> is filled in by the first insert (\<open>auto_now_add\<close>).
\<close>

record Key =
  pk :: "nat option"
  key :: string
  group_id :: string
  fact :: "string option"
  pub_date :: "datetime option"
  expires :: "datetime option"
  claimed :: "datetime option"
  claimed_by :: "user option"

text \<open>
  The keyword arguments of one \<open>key_claimed.send_robust(sender=key, claimant=claimant,
  group=key.group)\<close>.
\<close>

record key_claimed =
  sender :: Key
  claimant :: user
  group :: KeyGroup

text \<open>
  The state the operations work on: the table of groups (by primary key), the table of
  keys (rows in insertion order), the next value of the \<open>id\<close> sequence, and the
  \<open>key_claimed\<close> signals sent so far, oldest first.
\<close>

record store =
  group_rows :: "string \<rightharpoonup> KeyGroup"
  key_rows :: "Key list"
  next_id :: nat
  sent :: "key_claimed list"

text \<open>
  The exceptions. All three failures of \<open>claim\<close> are a \<open>VerificationError\<close>; they differ
  in the message, which is kept as a value instead of the formatted text.
\<close>

datatype message =
    DoesNotExistMsg string    \<comment> \<open>\<open>'Key %s does not exist, typo?' % keystring\<close>\<close>
  | ExpiredMsg "datetime option"   \<comment> \<open>\<open>'Key expired on %s' % key.expires\<close>\<close>
  | AlreadyClaimedMsg         \<comment> \<open>\<open>'Key has already been claimed'\<close>\<close>

datatype error =
    VerificationError message
  | ValidationError           \<comment> \<open>raised by \<open>clean\<close>\<close>
  | DoesNotExist              \<comment> \<open>a query for one row found none\<close>
  | MultipleObjectsReturned   \<comment> \<open>a query for one row found several\<close>
  | IntegrityError            \<comment> \<open>a constraint of the schema rejected a write\<close>
  | TypeError                 \<comment> \<open>calling \<open>None\<close>, or adding to \<open>None\<close>\<close>
  | UnknownGeneratorError     \<comment> \<open>the registry's lookup of an absent name\<close>
  | OverflowError             \<comment> \<open>a \<open>timedelta\<close> or a \<open>datetime\<close> out of range\<close>

subsection \<open>Dates of the standard library\<close>

text \<open>
  \<open>datetime.min\<close> is 0001-01-01T00:00:00 and \<open>datetime.max\<close> is
  9999-12-31T23:59:59.999999; a \<open>timedelta\<close> holds between \<open>-999999999\<close> days and
  \<open>999999999\<close> days, 23:59:59.999999.
\<close>

definition datetime_min :: datetime where
  "datetime_min = - 62135596800000000"

definition datetime_max :: datetime where
  "datetime_max = 253402300799999999"

definition timedelta_min_minutes :: int where
  "timedelta_min_minutes = - 999999999 * 1440"

definition timedelta_max_minutes :: int where
  "timedelta_max_minutes = 999999999 * 1440 + 1439"

text \<open>A number of minutes in microseconds.\<close>

definition minutes_us :: "int \<Rightarrow> int" where
  "minutes_us m = m * 60000000"

text \<open>\<open>timedelta(minutes=m)\<close>: \<open>OverflowError\<close> when the days are out of range.\<close>

definition timedelta_minutes :: "int \<Rightarrow> error + int" where
  "timedelta_minutes m =
     (if timedelta_min_minutes \<le> m \<and> m \<le> timedelta_max_minutes then Inr (minutes_us m)
      else Inl OverflowError)"

text \<open>
  \<open>d + delta\<close> for a \<open>datetime\<close> and a \<open>timedelta\<close>: \<open>OverflowError\<close> (date value out
  of range) when the sum is not a \<open>datetime\<close>.
\<close>

definition datetime_add :: "datetime \<Rightarrow> int \<Rightarrow> error + datetime" where
  "datetime_add d delta =
     (if datetime_min \<le> d + delta \<and> d + delta \<le> datetime_max then Inr (d + delta)
      else Inl OverflowError)"

subsection \<open>Truth values of Python objects\<close>

text \<open>
  \<open>if x:\<close> on an optional integer is false for \<open>None\<close> and for \<open>0\<close>; on an optional
  string it is false for \<open>None\<close> and for the empty string; on an optional \<open>datetime\<close> it
  is false for \<open>None\<close> only.
\<close>

definition truthy_int :: "int option \<Rightarrow> bool" where
  "truthy_int x = (case x of None \<Rightarrow> False | Some n \<Rightarrow> n \<noteq> 0)"

definition truthy_str :: "string option \<Rightarrow> bool" where
  "truthy_str x = (case x of None \<Rightarrow> False | Some s \<Rightarrow> s \<noteq> [])"

definition truthy_dt :: "datetime option \<Rightarrow> bool" where
  "truthy_dt x = (case x of None \<Rightarrow> False | Some _ \<Rightarrow> True)"

section \<open>The operations of the object-relational mapper that the source calls\<close>

subsection \<open>Field lookups\<close>

text \<open>
  A lookup compares a nullable column in SQL: a comparison with \<open>NULL\<close> selects nothing.
\<close>

definition lookup_lte :: "datetime \<Rightarrow> datetime option \<Rightarrow> bool" where
  "lookup_lte t c = (case c of None \<Rightarrow> False | Some v \<Rightarrow> v \<le> t)"

definition lookup_gt :: "datetime \<Rightarrow> datetime option \<Rightarrow> bool" where
  "lookup_gt t c = (case c of None \<Rightarrow> False | Some v \<Rightarrow> v > t)"

text \<open>\<open>QuerySet.filter\<close> and \<open>QuerySet.exclude\<close> with a condition on a row.\<close>

definition qs_filter :: "(Key \<Rightarrow> bool) \<Rightarrow> Key list \<Rightarrow> Key list" where
  "qs_filter c rows = filter c rows"

definition qs_exclude :: "(Key \<Rightarrow> bool) \<Rightarrow> Key list \<Rightarrow> Key list" where
  "qs_exclude c rows = filter (\<lambda>r. \<not> c r) rows"

text \<open>
  \<open>Key.objects.get(key=keystring)\<close>: the one row with that key; \<open>DoesNotExist\<close> when
  there is none, \<open>MultipleObjectsReturned\<close> when there are several.
\<close>

definition objects_get :: "store \<Rightarrow> string \<Rightarrow> error + Key" where
  "objects_get db keystring =
     (case qs_filter (\<lambda>r. key r = keystring) (key_rows db) of
        [] \<Rightarrow> Inl DoesNotExist
      | [r] \<Rightarrow> Inr r
      | _ # _ # _ \<Rightarrow> Inl MultipleObjectsReturned)"

text \<open>
  The attribute \<open>self.group\<close> of a key: the group object the instance already holds
  (\<open>cached\<close>, as after \<open>Key(group=group, ...)\<close>), otherwise the row of \<open>KeyGroup\<close> that
  \<open>group_id\<close> names, fetched from the table.
\<close>

definition related_group :: "store \<Rightarrow> KeyGroup option \<Rightarrow> Key \<Rightarrow> error + KeyGroup" where
  "related_group db cached k =
     (case cached of
        Some g \<Rightarrow> Inr g
      | None \<Rightarrow>
          (case group_rows db (group_id k) of
             None \<Rightarrow> Inl DoesNotExist
           | Some g \<Rightarrow> Inr g))"

subsection \<open>\<open>models.Model.save\<close>\<close>

text \<open>
  \<open>INSERT\<close> of an instance: rejected when another row has the same \<open>key\<close>
  (\<open>unique=True\<close>) or when \<open>group_id\<close> names no group (\<open>ForeignKey(KeyGroup)\<close>);
  otherwise the row gets its \<open>id\<close> (the next of the sequence when the instance has none)
  and \<open>pub_date = now\<close> (\<open>auto_now_add=True\<close>), and the instance carries both afterwards.
\<close>

definition insert_row :: "store \<Rightarrow> datetime \<Rightarrow> Key \<Rightarrow> store \<times> (error + Key)" where
  "insert_row db now k =
     (if key k \<in> set (map key (key_rows db)) \<or> group_rows db (group_id k) = None
      then (db, Inl IntegrityError)
      else
        (let i = (case pk k of None \<Rightarrow> next_id db | Some j \<Rightarrow> j);
             k' = k\<lparr>pk := Some i, pub_date := Some now\<rparr>
         in (db\<lparr>key_rows := key_rows db @ [k'], next_id := max (next_id db) (Suc i)\<rparr>,
             Inr k')))"

text \<open>
  \<open>UPDATE ... WHERE id = pk\<close> of an instance: every column of the row is overwritten
  with the instance's value. Rejected when a different row has the same \<open>key\<close>, when
  \<open>group_id\<close> names no group, or when \<open>pub_date\<close> is \<open>None\<close> (the column is not nullable).
\<close>

definition update_row :: "store \<Rightarrow> Key \<Rightarrow> store \<times> (error + Key)" where
  "update_row db k =
     (if key k \<in> set (map key (filter (\<lambda>r. pk r \<noteq> pk k) (key_rows db)))
         \<or> group_rows db (group_id k) = None \<or> pub_date k = None
      then (db, Inl IntegrityError)
      else (db\<lparr>key_rows := map (\<lambda>r. if pk r = pk k then k else r) (key_rows db)\<rparr>, Inr k))"

text \<open>
  \<open>super(AbstractKey, self).save()\<close>: an instance without primary key is inserted; one
  with a primary key is updated, and inserted when no row has that primary key.
\<close>

definition model_save :: "store \<Rightarrow> datetime \<Rightarrow> Key \<Rightarrow> store \<times> (error + Key)" where
  "model_save db now k =
     (case pk k of
        None \<Rightarrow> insert_row db now k
      | Some i \<Rightarrow>
          if Some i \<in> set (map pk (key_rows db)) then update_row db k
          else insert_row db now k)"

text \<open>\<open>KeyGroup.save()\<close>, which the class does not override: insert or update by \<open>name\<close>.\<close>

definition save_group :: "store \<Rightarrow> KeyGroup \<Rightarrow> store" where
  "save_group db g = db\<lparr>group_rows := (group_rows db)(name g \<mapsto> g)\<rparr>"

section \<open>The generator registry\<close>

text \<open>
  A generator class, \<open>Generator(seed=seed).generate_one_key(*args)\<close>, is a function from
  the optional seed and the extra arguments to the key string.
\<close>

type_synonym generator_class = "string option \<Rightarrow> string list \<Rightarrow> string"
type_synonym registry = "string \<rightharpoonup> generator_class"

text \<open>
  Modelled from the spec: \<open>verification.generators.registry\<close> is not among the sources.
  Section 4.1: \<open>available()\<close> is the set of registered names, and \<open>resolve(name)\<close>
  (\<open>generators.get\<close> in the source) returns the registered factory and fails with
  \<open>UnknownGeneratorError\<close> if the name is absent.
\<close>

definition registry_available :: "registry \<Rightarrow> string set" where
  "registry_available reg = dom reg"

definition registry_get :: "registry \<Rightarrow> string \<Rightarrow> error + generator_class" where
  "registry_get reg n = (case reg n of None \<Rightarrow> Inl UnknownGeneratorError | Some f \<Rightarrow> Inr f)"

section \<open>\<open>KeyGroup\<close> and \<open>AbstractKey\<close>\<close>

text \<open>
  \<open>KeyGroup.get_generator\<close>. The result \<open>Inr None\<close> is the method returning Python's
  \<open>None\<close>, which it does when the \<open>if\<close> fails and the body ends without a \<open>return\<close>.
\<close>

definition get_generator :: "registry \<Rightarrow> KeyGroup \<Rightarrow> error + generator_class option" where
  "get_generator reg g =
     (if generator g \<in> registry_available reg
      then (case registry_get reg (generator g) of
              Inl e \<Rightarrow> Inl e
            | Inr f \<Rightarrow> Inr (Some f))
      else Inr None)"

text \<open>
  \<open>AbstractKey.save\<close>. The first \<open>super().save()\<close> has written the row when the
  \<open>timedelta\<close> is built and added to \<open>pub_date\<close>; either step can raise
  \<open>OverflowError\<close>, and then the row stays as the first write left it. The result of a
  successful \<open>save\<close> carries the instance as saved and the group object that
  \<open>self.group\<close> gave.
\<close>

definition save :: "store \<Rightarrow> datetime \<Rightarrow> KeyGroup option \<Rightarrow> Key \<Rightarrow> store \<times> (error + Key \<times> KeyGroup)" where
  "save db now cached k =
     (case model_save db now k of
        (db1, Inl e) \<Rightarrow> (db1, Inl e)
      | (db1, Inr k1) \<Rightarrow>
          (case related_group db1 cached k1 of
             Inl e \<Rightarrow> (db1, Inl e)
           | Inr g \<Rightarrow>
               if truthy_int (ttl g) then
                 (case ttl g of
                    None \<Rightarrow> (db1, Inl TypeError)
                  | Some t \<Rightarrow>
                      (case timedelta_minutes t of
                         Inl e \<Rightarrow> (db1, Inl e)
                       | Inr add_minutes \<Rightarrow>
                           (case pub_date k1 of
                              None \<Rightarrow> (db1, Inl TypeError)
                            | Some p \<Rightarrow>
                                (case datetime_add p add_minutes of
                                   Inl e \<Rightarrow> (db1, Inl e)
                                 | Inr x \<Rightarrow>
                                     (case model_save db1 now (k1\<lparr>expires := Some x\<rparr>) of
                                        (db2, Inl e) \<Rightarrow> (db2, Inl e)
                                      | (db2, Inr k2) \<Rightarrow> (db2, Inr (k2, g)))))))
               else (db1, Inr (k1, g))))"

text \<open>\<open>AbstractKey.clean\<close>.\<close>

definition clean :: "store \<Rightarrow> KeyGroup option \<Rightarrow> Key \<Rightarrow> error + unit" where
  "clean db cached k =
     (case related_group db cached k of
        Inl e \<Rightarrow> Inl e
      | Inr g \<Rightarrow>
          if has_fact g = True \<and> \<not> truthy_str (fact k) then Inl ValidationError
          else Inr ())"

text \<open>
  \<open>AbstractKey.generate\<close>. Calling the \<open>None\<close> that \<open>get_generator\<close> returned raises
  \<open>TypeError\<close>.
\<close>

definition generate ::
  "registry \<Rightarrow> store \<Rightarrow> datetime \<Rightarrow> KeyGroup \<Rightarrow> string option \<Rightarrow> string list \<Rightarrow> store \<times> (error + Key)" where
  "generate reg db now g seed args =
     (case get_generator reg g of
        Inl e \<Rightarrow> (db, Inl e)
      | Inr None \<Rightarrow> (db, Inl TypeError)
      | Inr (Some Generator) \<Rightarrow>
          (let keystring = Generator seed args;
               k = \<lparr>pk = None, key = keystring, group_id = name g, fact = None,
                    pub_date = None, expires = None, claimed = None, claimed_by = None\<rparr>
           in (case save db now (Some g) k of
                 (db1, Inl e) \<Rightarrow> (db1, Inl e)
               | (db1, Inr (k1, _)) \<Rightarrow> (db1, Inr k1))))"

section \<open>\<open>claim\<close>\<close>

text \<open>
  The function \<open>claim(keystring, claimant)\<close>. Only \<open>Key.DoesNotExist\<close> is caught and
  turned into a \<open>VerificationError\<close>. The instance that \<open>get\<close> returns holds no group
  object, so \<open>save\<close> fetches the group.
\<close>

definition claim :: "store \<Rightarrow> datetime \<Rightarrow> string \<Rightarrow> user \<Rightarrow> store \<times> (error + Key)" where
  "claim db now keystring c =
     (case objects_get db keystring of
        Inl e \<Rightarrow>
          (db, Inl (if e = DoesNotExist then VerificationError (DoesNotExistMsg keystring) else e))
      | Inr k \<Rightarrow>
          if truthy_dt (expires k) \<and> lookup_lte now (expires k)
          then (db, Inl (VerificationError (ExpiredMsg (expires k))))
          else if truthy_dt (claimed k)
          then (db, Inl (VerificationError AlreadyClaimedMsg))
          else
            (case save db now None (k\<lparr>claimed_by := Some c, claimed := Some now\<rparr>) of
               (db1, Inl e) \<Rightarrow> (db1, Inl e)
             | (db1, Inr (k1, g)) \<Rightarrow>
                 (db1\<lparr>sent := sent db1 @ [\<lparr>sender = k1, claimant = c, group = g\<rparr>]\<rparr>, Inr k1)))"

section \<open>\<open>KeyMixin\<close>: the views of the manager \<open>Key.objects\<close>\<close>

text \<open>
  On the manager, \<open>get_query_set()\<close> is every row of the table. The order of a result
  (\<open>ordering = ('-pub_date',)\<close>) is not part of the model: results are read as
  collections of rows.
\<close>

definition get_query_set :: "store \<Rightarrow> Key list" where
  "get_query_set db = key_rows db"

definition objects_expired :: "store \<Rightarrow> datetime \<Rightarrow> Key list" where
  "objects_expired db now =
     qs_filter (\<lambda>r. lookup_lte now (expires r))
       (qs_exclude (\<lambda>r. expires r = None) (get_query_set db))"

definition objects_available :: "store \<Rightarrow> datetime \<Rightarrow> Key list" where
  "objects_available db now =
     qs_filter (\<lambda>r. claimed r = None)
       (qs_filter (\<lambda>r. lookup_gt now (expires r) \<or> expires r = None) (get_query_set db))"

definition objects_claimed :: "store \<Rightarrow> Key list" where
  "objects_claimed db = qs_exclude (\<lambda>r. claimed r = None) (get_query_set db)"

text \<open>\<open>delete_expired\<close>: the rows that \<open>filter(expires__lte=now)\<close> selects are deleted.\<close>

definition objects_delete_expired :: "store \<Rightarrow> datetime \<Rightarrow> store" where
  "objects_delete_expired db now =
     db\<lparr>key_rows := filter (\<lambda>r. r \<notin> set (qs_filter (\<lambda>r. lookup_lte now (expires r)) (key_rows db)))
                       (key_rows db)\<rparr>"

section \<open>Notions used to state the properties\<close>

subsection \<open>The constraints of the schema\<close>

text \<open>
  What the declarations of \<open>AbstractKey\<close> make the database keep of the table of keys:
  \<open>key\<close> is unique (\<open>unique=True\<close>), the primary key is unique, present and below the
  next value of its sequence, \<open>pub_date\<close> is not null, and \<open>group_id\<close> names a row of
  \<open>KeyGroup\<close> (\<open>ForeignKey(KeyGroup)\<close>).
\<close>

definition wf_store :: "store \<Rightarrow> bool" where
  "wf_store db =
     (distinct (map key (key_rows db)) \<and> distinct (map pk (key_rows db))
      \<and> list_all (\<lambda>r. (case pk r of None \<Rightarrow> False | Some i \<Rightarrow> i < next_id db)
                        \<and> pub_date r \<noteq> None \<and> group_rows db (group_id r) \<noteq> None)
           (key_rows db))"

subsection \<open>Expiry dates\<close>

text \<open>
  The arithmetic of \<open>save\<close> on a key published at \<open>p\<close> in group \<open>g\<close> raises nothing:
  the \<open>ttl\<close> is absent or zero (no arithmetic is done), or it is a \<open>timedelta\<close> and
  \<open>p + ttl\<close> is a \<open>datetime\<close>.
\<close>

definition expiry_fits :: "KeyGroup \<Rightarrow> datetime \<Rightarrow> bool" where
  "expiry_fits g p =
     (case ttl g of
        None \<Rightarrow> True
      | Some t \<Rightarrow>
          t = 0 \<or> (timedelta_min_minutes \<le> t \<and> t \<le> timedelta_max_minutes
                   \<and> datetime_min \<le> p + minutes_us t \<and> p + minutes_us t \<le> datetime_max))"

text \<open>
  The expiry that a key created at \<open>created\<close> in group \<open>g\<close> is given by \<open>save\<close>, as the
  test \<open>if self.group.ttl:\<close> decides it.
\<close>

definition derived_expires :: "KeyGroup \<Rightarrow> datetime \<Rightarrow> datetime option" where
  "derived_expires g created =
     (case ttl g of
        None \<Rightarrow> None
      | Some t \<Rightarrow> if t = 0 then None else Some (created + minutes_us t))"

text \<open>
  The expiry of the stored row \<open>r\<close> after it is saved again while its group is \<open>g\<close>.
\<close>

definition new_expires :: "KeyGroup \<Rightarrow> Key \<Rightarrow> datetime option" where
  "new_expires g r =
     (case (ttl g, pub_date r) of
        (Some t, Some p) \<Rightarrow> if t = 0 then expires r else Some (p + minutes_us t)
      | _ \<Rightarrow> expires r)"

text \<open>The row that a successful claim of the stored row \<open>r\<close> writes and returns.\<close>

definition claimed_row :: "KeyGroup \<Rightarrow> Key \<Rightarrow> datetime \<Rightarrow> user \<Rightarrow> Key" where
  "claimed_row g r now c = r\<lparr>expires := new_expires g r, claimed := Some now, claimed_by := Some c\<rparr>"

subsection \<open>The two halves of \<open>claim\<close>, and runs of calls\<close>

text \<open>
  The statements of \<open>claim\<close> up to the last check read the table and write nothing
  (\<open>claim_check\<close>: the lookup and the two tests, on the instance that \<open>get\<close> returned);
  the statements after it write the instance back and send the signal
  (\<open>claim_commit\<close>). \<open>claim\<close> is the first followed by the second.
\<close>

definition claim_check :: "store \<Rightarrow> datetime \<Rightarrow> string \<Rightarrow> error + Key" where
  "claim_check db now keystring =
     (case objects_get db keystring of
        Inl e \<Rightarrow> Inl (if e = DoesNotExist then VerificationError (DoesNotExistMsg keystring) else e)
      | Inr k \<Rightarrow>
          if truthy_dt (expires k) \<and> lookup_lte now (expires k)
          then Inl (VerificationError (ExpiredMsg (expires k)))
          else if truthy_dt (claimed k)
          then Inl (VerificationError AlreadyClaimedMsg)
          else Inr k)"

definition claim_commit :: "store \<Rightarrow> datetime \<Rightarrow> Key \<Rightarrow> user \<Rightarrow> store \<times> (error + Key)" where
  "claim_commit db now k c =
     (case save db now None (k\<lparr>claimed_by := Some c, claimed := Some now\<rparr>) of
        (db1, Inl e) \<Rightarrow> (db1, Inl e)
      | (db1, Inr (k1, g)) \<Rightarrow>
          (db1\<lparr>sent := sent db1 @ [\<lparr>sender = k1, claimant = c, group = g\<rparr>]\<rparr>, Inr k1))"

text \<open>
  Calls of \<open>claim\<close> one after the other, each at its own time, on its own key string and
  for its own claimant; the results in the order of the calls.
\<close>

fun claim_all :: "store \<Rightarrow> (datetime \<times> string \<times> user) list \<Rightarrow> store \<times> (error + Key) list" where
  "claim_all db [] = (db, [])"
| "claim_all db ((now, keystring, c) # calls) =
     (case claim db now keystring c of
        (db1, res) \<Rightarrow>
          (case claim_all db1 calls of
             (db2, ress) \<Rightarrow> (db2, res # ress)))"

definition is_verification_error :: "error + Key \<Rightarrow> bool" where
  "is_verification_error res = (case res of Inl (VerificationError _) \<Rightarrow> True | _ \<Rightarrow> False)"

subsection \<open>Example data\<close>

text \<open>
  The group of the demo project (\<open>demo/projectapp/views.py\<close>), three more groups, a
  registry with one generator class, and three stores. The generator classes themselves are
  not among the sources; \<open>echo_generator\<close> stands for one whose key is its seed.
\<close>

definition activate_account :: KeyGroup where
  "activate_account =
     \<lparr>name = ''activate_account'', ttl = Some 60, generator = ''md5-hex'', has_fact = False\<rparr>"

definition verify_email :: KeyGroup where
  "verify_email =
     \<lparr>name = ''verify_email'', ttl = None, generator = ''md5-hex'', has_fact = True\<rparr>"

definition instant :: KeyGroup where
  "instant = \<lparr>name = ''instant'', ttl = Some 0, generator = ''md5-hex'', has_fact = False\<rparr>"

definition ancient :: KeyGroup where
  "ancient = \<lparr>name = ''ancient'', ttl = Some (- 2147483648), generator = ''md5-hex'', has_fact = False\<rparr>"

definition echo_generator :: generator_class where
  "echo_generator seed args = (case seed of Some s \<Rightarrow> s | None \<Rightarrow> concat args)"

definition demo_registry :: registry where
  "demo_registry = [''md5-hex'' \<mapsto> echo_generator]"

definition row_pending :: Key where
  "row_pending =
     \<lparr>pk = Some 0, key = ''a1'', group_id = ''activate_account'', fact = None,
      pub_date = Some 0, expires = Some 3600000000, claimed = None, claimed_by = None\<rparr>"

definition row_claimed :: Key where
  "row_claimed =
     \<lparr>pk = Some 1, key = ''b2'', group_id = ''activate_account'', fact = None,
      pub_date = Some 0, expires = Some 3600000000, claimed = Some 1000, claimed_by = Some 7\<rparr>"

definition row_forever :: Key where
  "row_forever =
     \<lparr>pk = Some 2, key = ''c3'', group_id = ''verify_email'', fact = Some ''a@example.com'',
      pub_date = Some 5, expires = None, claimed = None, claimed_by = None\<rparr>"

definition demo_groups :: "string \<rightharpoonup> KeyGroup" where
  "demo_groups =
     [''activate_account'' \<mapsto> activate_account, ''verify_email'' \<mapsto> verify_email,
      ''instant'' \<mapsto> instant, ''ancient'' \<mapsto> ancient]"

definition empty_store :: store where
  "empty_store = \<lparr>group_rows = demo_groups, key_rows = [], next_id = 0, sent = []\<rparr>"

definition row_ancient :: Key where
  "row_ancient =
     \<lparr>pk = Some 0, key = ''d4'', group_id = ''ancient'', fact = None,
      pub_date = Some 0, expires = None, claimed = None, claimed_by = None\<rparr>"

definition ancient_store :: store where
  "ancient_store = \<lparr>group_rows = demo_groups, key_rows = [row_ancient], next_id = 1, sent = []\<rparr>"

definition demo_store :: store where
  "demo_store =
     \<lparr>group_rows = demo_groups, key_rows = [row_pending, row_claimed, row_forever],
      next_id = 3, sent = []\<rparr>"

lemmas demo_defs =
  demo_store_def empty_store_def demo_groups_def row_pending_def row_claimed_def row_forever_def
  activate_account_def verify_email_def instant_def demo_registry_def echo_generator_def
  ancient_def row_ancient_def ancient_store_def

lemmas date_defs =
  datetime_min_def datetime_max_def timedelta_min_minutes_def timedelta_max_minutes_def
  minutes_us_def

section \<open>Auxiliary facts\<close>

subsection \<open>Field lookups\<close>

lemma lookup_lte_iff: "lookup_lte t c = (\<exists>e. c = Some e \<and> e \<le> t)"
  by (cases c) (simp_all add: lookup_lte_def)

lemma lookup_gt_iff: "lookup_gt t c = (\<exists>e. c = Some e \<and> t < e)"
  by (cases c) (simp_all add: lookup_gt_def)

subsection \<open>Queries and writes on a store that meets the constraints\<close>

lemma filter_key_unique:
  "distinct (map key rows) \<Longrightarrow> r \<in> set rows \<Longrightarrow> filter (\<lambda>x. key x = key r) rows = [r]"
proof (induction rows)
  case Nil
  then show ?case by simp
next
  case (Cons a rows)
  show ?case
  proof (cases "a = r")
    case True
    with Cons.prems have "\<forall>x\<in>set rows. key x \<noteq> key r" by (auto simp: image_iff)
    then have "filter (\<lambda>x. key x = key r) rows = []" by (simp add: filter_empty_conv)
    with True show ?thesis by simp
  next
    case False
    with Cons.prems have "r \<in> set rows" "key a \<noteq> key r" by auto
    with Cons show ?thesis by simp
  qed
qed

lemma objects_get_found:
  "distinct (map key (key_rows db)) \<Longrightarrow> r \<in> set (key_rows db) \<Longrightarrow> objects_get db (key r) = Inr r"
  by (simp add: objects_get_def qs_filter_def filter_key_unique)

lemma objects_get_missing:
  "ks \<notin> set (map key (key_rows db)) \<Longrightarrow> objects_get db ks = Inl DoesNotExist"
proof -
  assume "ks \<notin> set (map key (key_rows db))"
  then have "filter (\<lambda>r. key r = ks) (key_rows db) = []"
    by (auto simp: filter_empty_conv)
  then show ?thesis by (simp add: objects_get_def qs_filter_def)
qed

lemma objects_get_Inr:
  "objects_get db ks = Inr r \<Longrightarrow> r \<in> set (key_rows db) \<and> key r = ks"
proof -
  assume a: "objects_get db ks = Inr r"
  then have "filter (\<lambda>r. key r = ks) (key_rows db) = [r]"
    by (auto simp: objects_get_def qs_filter_def split: list.splits)
  then have "r \<in> set (filter (\<lambda>r. key r = ks) (key_rows db))" by simp
  then show ?thesis by simp
qed

lemma pk_unique:
  "distinct (map pk rows) \<Longrightarrow> r \<in> set rows \<Longrightarrow> x \<in> set rows \<Longrightarrow> pk x = pk r \<Longrightarrow> x = r"
  by (meson distinct_map inj_onD)

lemma overwrite_row:
  assumes "distinct (map pk rows)" "r \<in> set rows" "pk k = pk r"
  shows "map pk (map (\<lambda>x. if pk x = pk k then k else x) rows) = map pk rows"
    and "key k = key r \<Longrightarrow> map key (map (\<lambda>x. if pk x = pk k then k else x) rows) = map key rows"
    and "k \<in> set (map (\<lambda>x. if pk x = pk k then k else x) rows)"
    and "set (map (\<lambda>x. if pk x = pk k then k else x) rows) = insert k (set rows - {r})"
proof -
  have eq: "\<And>x. x \<in> set rows \<Longrightarrow> pk x = pk k \<Longrightarrow> x = r"
    using assms pk_unique by metis
  show "map pk (map (\<lambda>x. if pk x = pk k then k else x) rows) = map pk rows"
    by (simp add: comp_def)
  show "key k = key r \<Longrightarrow> map key (map (\<lambda>x. if pk x = pk k then k else x) rows) = map key rows"
    using eq by (auto simp: comp_def)
  show "k \<in> set (map (\<lambda>x. if pk x = pk k then k else x) rows)"
    using assms by force
  show "set (map (\<lambda>x. if pk x = pk k then k else x) rows) = insert k (set rows - {r})"
    using assms eq by (auto simp: image_iff)
qed

lemma other_keys:
  assumes "distinct (map key rows)" "r \<in> set rows"
  shows "key r \<notin> set (map key (filter (\<lambda>x. pk x \<noteq> pk r) rows))"
proof
  assume "key r \<in> set (map key (filter (\<lambda>x. pk x \<noteq> pk r) rows))"
  then obtain x where x: "x \<in> set rows" "pk x \<noteq> pk r" "key x = key r" by auto
  then have "x \<in> set (filter (\<lambda>y. key y = key r) rows)" by simp
  with assms filter_key_unique have "x = r" by fastforce
  with x show False by simp
qed

lemma wf_row:
  assumes "wf_store db" "r \<in> set (key_rows db)"
  shows "\<exists>i. pk r = Some i" "\<exists>p. pub_date r = Some p" "\<exists>g. group_rows db (group_id r) = Some g"
  using assms by (auto simp: wf_store_def list_all_iff split: option.splits)

lemma model_save_update:
  assumes wf: "wf_store db" and r: "r \<in> set (key_rows db)"
    and k: "pk k = pk r" "key k = key r" "group_id k = group_id r" "pub_date k \<noteq> None"
  shows "model_save db now k =
           (db\<lparr>key_rows := map (\<lambda>x. if pk x = pk r then k else x) (key_rows db)\<rparr>, Inr k)"
proof -
  from wf r obtain i where i: "pk r = Some i" using wf_row(1) by blast
  from wf r obtain g where g: "group_rows db (group_id r) = Some g" using wf_row(3) by blast
  from wf have d: "distinct (map key (key_rows db))" by (simp add: wf_store_def)
  have mem: "Some i \<in> set (map pk (key_rows db))" using r i by force
  have nk: "key k \<notin> set (map key (filter (\<lambda>x. pk x \<noteq> pk k) (key_rows db)))"
    using other_keys [OF d r] k by simp
  have "update_row db k =
          (db\<lparr>key_rows := map (\<lambda>x. if pk x = pk r then k else x) (key_rows db)\<rparr>, Inr k)"
    unfolding update_row_def using nk g k by simp
  then show ?thesis using mem i k by (simp add: model_save_def)
qed

lemma wf_store_overwrite:
  assumes wf: "wf_store db" and r: "r \<in> set (key_rows db)"
    and k: "pk k = pk r" "key k = key r" "group_id k = group_id r" "pub_date k \<noteq> None"
  shows "wf_store (db\<lparr>key_rows := map (\<lambda>x. if pk x = pk r then k else x) (key_rows db)\<rparr>)"
proof -
  from wf have d: "distinct (map pk (key_rows db))" by (simp add: wf_store_def)
  have k': "pk r = pk k" using k by simp
  note ow = overwrite_row [OF d r k(1)]
  have s: "set (map (\<lambda>x. if pk x = pk r then k else x) (key_rows db)) = insert k (set (key_rows db) - {r})"
    using ow(4) k by simp
  have a: "map pk (map (\<lambda>x. if pk x = pk r then k else x) (key_rows db)) = map pk (key_rows db)"
    using ow(1) k by simp
  have b: "map key (map (\<lambda>x. if pk x = pk r then k else x) (key_rows db)) = map key (key_rows db)"
    using ow(2) k by simp
  have c: "\<forall>x \<in> set (map (\<lambda>x. if pk x = pk r then k else x) (key_rows db)).
             (case pk x of None \<Rightarrow> False | Some i \<Rightarrow> i < next_id db)
               \<and> pub_date x \<noteq> None \<and> group_rows db (group_id x) \<noteq> None"
    unfolding s using wf r k by (auto simp: wf_store_def list_all_iff)
  have d1: "distinct (map key (map (\<lambda>x. if pk x = pk r then k else x) (key_rows db)))"
    unfolding b using wf by (simp add: wf_store_def)
  have d2: "distinct (map pk (map (\<lambda>x. if pk x = pk r then k else x) (key_rows db)))"
    unfolding a by (rule d)
  show ?thesis
    unfolding wf_store_def list_all_iff using c d1 d2 by (simp cong: option.case_cong)
qed

subsection \<open>The arithmetic of \<open>save\<close>\<close>

lemma expiry_fits_arith:
  assumes "expiry_fits g p" "ttl g = Some t" "t \<noteq> 0"
  shows "timedelta_minutes t = Inr (minutes_us t)"
    and "datetime_add p (minutes_us t) = Inr (p + minutes_us t)"
  using assms by (simp_all add: expiry_fits_def timedelta_minutes_def datetime_add_def)

lemma expiry_unfit:
  assumes "\<not> expiry_fits g p"
  shows "\<exists>t. ttl g = Some t \<and> t \<noteq> 0
           \<and> (timedelta_minutes t = Inl OverflowError
                \<or> (timedelta_minutes t = Inr (minutes_us t)
                    \<and> datetime_add p (minutes_us t) = Inl OverflowError))"
  using assms
  by (auto simp: expiry_fits_def timedelta_minutes_def datetime_add_def split: option.splits)

subsection \<open>The outcomes of \<open>claim\<close>\<close>

lemma save_first_write:
  assumes wf: "wf_store db" and r: "r \<in> set (key_rows db)"
    and k: "pk k = pk r" "key k = key r" "group_id k = group_id r" "pub_date k = pub_date r"
    and g: "group_rows db (group_id r) = Some g"
  shows "model_save db now k =
           (db\<lparr>key_rows := map (\<lambda>x. if pk x = pk r then k else x) (key_rows db)\<rparr>, Inr k)"
    and "related_group (db\<lparr>key_rows := map (\<lambda>x. if pk x = pk r then k else x) (key_rows db)\<rparr>)
           None k = Inr g"
proof -
  from wf r obtain p where p: "pub_date r = Some p" using wf_row(2) by blast
  show "model_save db now k =
           (db\<lparr>key_rows := map (\<lambda>x. if pk x = pk r then k else x) (key_rows db)\<rparr>, Inr k)"
    using model_save_update [OF wf r k(1,2,3)] k(4) p by simp
  show "related_group (db\<lparr>key_rows := map (\<lambda>x. if pk x = pk r then k else x) (key_rows db)\<rparr>)
           None k = Inr g"
    using g k by (simp add: related_group_def)
qed

lemma save_stored:
  assumes wf: "wf_store db" and r: "r \<in> set (key_rows db)"
    and k: "pk k = pk r" "key k = key r" "group_id k = group_id r" "pub_date k = pub_date r"
    and g: "group_rows db (group_id r) = Some g"
    and p: "pub_date r = Some p" and fits: "expiry_fits g p"
  shows "save db now None k =
           (db\<lparr>key_rows := map (\<lambda>x. if pk x = pk r then k\<lparr>expires := new_expires g (r\<lparr>expires := expires k\<rparr>)\<rparr> else x) (key_rows db)\<rparr>,
            Inr (k\<lparr>expires := new_expires g (r\<lparr>expires := expires k\<rparr>)\<rparr>, g))"
proof -
  let ?db1 = "db\<lparr>key_rows := map (\<lambda>x. if pk x = pk r then k else x) (key_rows db)\<rparr>"
  note s1 = save_first_write(1) [OF wf r k g, of now]
  note rg = save_first_write(2) [OF wf r k g]
  show ?thesis
  proof (cases "truthy_int (ttl g)")
    case False
    then have "new_expires g (r\<lparr>expires := expires k\<rparr>) = expires k"
      by (auto simp: new_expires_def truthy_int_def split: option.splits)
    then have "k\<lparr>expires := new_expires g (r\<lparr>expires := expires k\<rparr>)\<rparr> = k" by simp
    then show ?thesis using s1 rg False by (simp add: save_def)
  next
    case True
    then obtain t where t: "ttl g = Some t" "t \<noteq> 0"
      by (auto simp: truthy_int_def split: option.splits)
    note ar = expiry_fits_arith [OF fits t]
    let ?k2 = "k\<lparr>expires := Some (p + minutes_us t)\<rparr>"
    have ne: "new_expires g (r\<lparr>expires := expires k\<rparr>) = Some (p + minutes_us t)"
      using t p by (simp add: new_expires_def)
    have wf1: "wf_store ?db1"
      using wf_store_overwrite [OF wf r k(1,2,3)] k(4) p by simp
    from wf have d: "distinct (map pk (key_rows db))" by (simp add: wf_store_def)
    have k1: "k \<in> set (key_rows ?db1)"
      using overwrite_row(3) [OF d r k(1)] k(1) by simp
    have s2: "model_save ?db1 now ?k2 =
            (?db1\<lparr>key_rows := map (\<lambda>x. if pk x = pk k then ?k2 else x) (key_rows ?db1)\<rparr>, Inr ?k2)"
      by (rule model_save_update [OF wf1 k1]) (simp_all add: k p)
    have comp: "map (\<lambda>x. if pk x = pk k then ?k2 else x) (key_rows ?db1)
                 = map (\<lambda>x. if pk x = pk r then ?k2 else x) (key_rows db)"
      using k(1) by simp
    have s2': "model_save ?db1 now ?k2 =
            (db\<lparr>key_rows := map (\<lambda>x. if pk x = pk r then ?k2 else x) (key_rows db)\<rparr>, Inr ?k2)"
      unfolding s2 comp by simp
    show ?thesis
      unfolding ne using s1 rg True t p k(4) s2' ar by (simp add: save_def)
  qed
qed

lemma save_stored_overflow:
  assumes wf: "wf_store db" and r: "r \<in> set (key_rows db)"
    and k: "pk k = pk r" "key k = key r" "group_id k = group_id r" "pub_date k = pub_date r"
    and g: "group_rows db (group_id r) = Some g"
    and p: "pub_date r = Some p" and unfit: "\<not> expiry_fits g p"
  shows "save db now None k =
           (db\<lparr>key_rows := map (\<lambda>x. if pk x = pk r then k else x) (key_rows db)\<rparr>,
            Inl OverflowError)"
proof -
  note s1 = save_first_write(1) [OF wf r k g, of now]
  note rg = save_first_write(2) [OF wf r k g]
  from expiry_unfit [OF unfit] obtain t where t: "ttl g = Some t" "t \<noteq> 0"
    and ov: "timedelta_minutes t = Inl OverflowError
               \<or> (timedelta_minutes t = Inr (minutes_us t)
                   \<and> datetime_add p (minutes_us t) = Inl OverflowError)"
    by blast
  have tr: "truthy_int (ttl g)" using t by (simp add: truthy_int_def)
  from ov show ?thesis
  proof
    assume "timedelta_minutes t = Inl OverflowError"
    then show ?thesis using s1 rg tr t by (simp add: save_def)
  next
    assume "timedelta_minutes t = Inr (minutes_us t)
              \<and> datetime_add p (minutes_us t) = Inl OverflowError"
    then show ?thesis using s1 rg tr t p k(4) by (simp add: save_def)
  qed
qed

lemma claim_success:
  assumes wf: "wf_store db" and r: "r \<in> set (key_rows db)"
    and ne: "\<not> lookup_lte now (expires r)" and nc: "claimed r = None"
    and g: "group_rows db (group_id r) = Some g"
    and p: "pub_date r = Some p" and fits: "expiry_fits g p"
  shows "claim db now (key r) c =
           (db\<lparr>key_rows := map (\<lambda>x. if pk x = pk r then claimed_row g r now c else x) (key_rows db),
               sent := sent db @ [\<lparr>sender = claimed_row g r now c, claimant = c, group = g\<rparr>]\<rparr>,
            Inr (claimed_row g r now c))"
proof -
  from wf have d: "distinct (map key (key_rows db))" by (simp add: wf_store_def)
  have get: "objects_get db (key r) = Inr r" by (rule objects_get_found [OF d r])
  let ?k = "r\<lparr>claimed_by := Some c, claimed := Some now\<rparr>"
  have sv: "save db now None ?k =
           (db\<lparr>key_rows := map (\<lambda>x. if pk x = pk r then ?k\<lparr>expires := new_expires g (r\<lparr>expires := expires ?k\<rparr>)\<rparr> else x) (key_rows db)\<rparr>,
            Inr (?k\<lparr>expires := new_expires g (r\<lparr>expires := expires ?k\<rparr>)\<rparr>, g))"
    by (rule save_stored [OF wf r _ _ _ _ g p fits]) simp_all
  have eq: "?k\<lparr>expires := new_expires g (r\<lparr>expires := expires ?k\<rparr>)\<rparr> = claimed_row g r now c"
    by (simp add: claimed_row_def)
  have chk: "\<not> (truthy_dt (expires r) \<and> lookup_lte now (expires r))" "\<not> truthy_dt (claimed r)"
    using ne nc by (simp_all add: truthy_dt_def)
  show ?thesis
    unfolding claim_def get using chk sv eq by simp
qed

text \<open>
  When the arithmetic of \<open>save\<close> overflows, \<open>claim\<close> has written \<open>claimed\<close> and
  \<open>claimed_by\<close>, raises \<open>OverflowError\<close> and sends no signal.
\<close>

lemma claim_overflow:
  assumes wf: "wf_store db" and r: "r \<in> set (key_rows db)"
    and ne: "\<not> lookup_lte now (expires r)" and nc: "claimed r = None"
    and g: "group_rows db (group_id r) = Some g"
    and p: "pub_date r = Some p" and unfit: "\<not> expiry_fits g p"
  shows "claim db now (key r) c =
           (db\<lparr>key_rows := map (\<lambda>x. if pk x = pk r then r\<lparr>claimed_by := Some c, claimed := Some now\<rparr> else x)
                              (key_rows db)\<rparr>,
            Inl OverflowError)"
proof -
  from wf have d: "distinct (map key (key_rows db))" by (simp add: wf_store_def)
  have get: "objects_get db (key r) = Inr r" by (rule objects_get_found [OF d r])
  let ?k = "r\<lparr>claimed_by := Some c, claimed := Some now\<rparr>"
  have sv: "save db now None ?k =
           (db\<lparr>key_rows := map (\<lambda>x. if pk x = pk r then ?k else x) (key_rows db)\<rparr>, Inl OverflowError)"
    by (rule save_stored_overflow [OF wf r _ _ _ _ g p unfit]) simp_all
  have chk: "\<not> (truthy_dt (expires r) \<and> lookup_lte now (expires r))" "\<not> truthy_dt (claimed r)"
    using ne nc by (simp_all add: truthy_dt_def)
  show ?thesis
    unfolding claim_def get using chk sv by simp
qed

lemma claim_missing:
  "ks \<notin> set (map key (key_rows db)) \<Longrightarrow>
     claim db now ks c = (db, Inl (VerificationError (DoesNotExistMsg ks)))"
  by (simp add: claim_def objects_get_missing)

lemma claim_expired:
  assumes "wf_store db" "r \<in> set (key_rows db)" "lookup_lte now (expires r)"
  shows "claim db now (key r) c = (db, Inl (VerificationError (ExpiredMsg (expires r))))"
proof -
  from assms have get: "objects_get db (key r) = Inr r"
    by (simp add: objects_get_found wf_store_def)
  from assms(3) have "truthy_dt (expires r)"
    by (auto simp: truthy_dt_def lookup_lte_def split: option.splits)
  with assms(3) show ?thesis unfolding claim_def get by simp
qed

lemma claim_already:
  assumes "wf_store db" "r \<in> set (key_rows db)" "\<not> lookup_lte now (expires r)" "claimed r \<noteq> None"
  shows "claim db now (key r) c = (db, Inl (VerificationError AlreadyClaimedMsg))"
proof -
  from assms have get: "objects_get db (key r) = Inr r"
    by (simp add: objects_get_found wf_store_def)
  from assms(4) have "truthy_dt (claimed r)"
    by (auto simp: truthy_dt_def split: option.splits)
  with assms(3) show ?thesis unfolding claim_def get by simp
qed

subsection \<open>The outcomes of \<open>generate\<close>\<close>

lemma get_generator_eq: "get_generator reg g = Inr (reg (generator g))"
  by (auto simp: get_generator_def registry_available_def registry_get_def split: option.splits)

lemma fresh_pk:
  assumes "wf_store db"
  shows "Some (next_id db) \<notin> set (map pk (key_rows db))"
    and "map (\<lambda>x. if pk x = Some (next_id db) then k else x) (key_rows db) = key_rows db"
proof -
  have lt: "\<And>x. x \<in> set (key_rows db) \<Longrightarrow> pk x \<noteq> Some (next_id db)"
    using assms by (auto simp: wf_store_def list_all_iff split: option.splits)
  show "Some (next_id db) \<notin> set (map pk (key_rows db))"
  proof
    assume "Some (next_id db) \<in> set (map pk (key_rows db))"
    then obtain x where "x \<in> set (key_rows db)" "pk x = Some (next_id db)" by auto
    with lt show False by blast
  qed
  show "map (\<lambda>x. if pk x = Some (next_id db) then k else x) (key_rows db) = key_rows db"
    using lt by (simp add: map_idI)
qed

lemma generate_success:
  assumes wf: "wf_store db" and G: "reg (generator g) = Some G"
    and fresh: "G seed args \<notin> set (map key (key_rows db))"
    and grp: "group_rows db (name g) \<noteq> None"
    and fits: "expiry_fits g now"
  shows "generate reg db now g seed args =
           (db\<lparr>key_rows := key_rows db @
                  [\<lparr>pk = Some (next_id db), key = G seed args, group_id = name g, fact = None,
                    pub_date = Some now, expires = derived_expires g now, claimed = None,
                    claimed_by = None\<rparr>],
                next_id := Suc (next_id db)\<rparr>,
            Inr \<lparr>pk = Some (next_id db), key = G seed args, group_id = name g, fact = None,
                 pub_date = Some now, expires = derived_expires g now, claimed = None,
                 claimed_by = None\<rparr>)"
proof -
  let ?k0 = "\<lparr>pk = None, key = G seed args, group_id = name g, fact = None,
               pub_date = None, expires = None, claimed = None, claimed_by = None\<rparr>"
  let ?k1 = "\<lparr>pk = Some (next_id db), key = G seed args, group_id = name g, fact = None,
               pub_date = Some now, expires = None, claimed = None, claimed_by = None\<rparr>"
  let ?db1 = "db\<lparr>key_rows := key_rows db @ [?k1], next_id := Suc (next_id db)\<rparr>"
  have s1: "model_save db now ?k0 = (?db1, Inr ?k1)"
    using fresh grp by (simp add: model_save_def insert_row_def Let_def)
  have rg: "related_group ?db1 (Some g) ?k1 = Inr g" by (simp add: related_group_def)
  have sv: "save db now (Some g) ?k0 =
      (db\<lparr>key_rows := key_rows db @ [?k1\<lparr>expires := derived_expires g now\<rparr>],
          next_id := Suc (next_id db)\<rparr>, Inr (?k1\<lparr>expires := derived_expires g now\<rparr>, g))"
  proof (cases "truthy_int (ttl g)")
    case False
    then have "derived_expires g now = None"
      by (auto simp: derived_expires_def truthy_int_def split: option.splits)
    then show ?thesis using s1 rg False by (simp add: save_def)
  next
    case True
    then obtain t where t: "ttl g = Some t" "t \<noteq> 0"
      by (auto simp: truthy_int_def split: option.splits)
    then have de: "derived_expires g now = Some (now + minutes_us t)"
      by (simp add: derived_expires_def)
    note ar = expiry_fits_arith [OF fits t]
    let ?k2 = "?k1\<lparr>expires := Some (now + minutes_us t)\<rparr>"
    have nk: "key ?k2 \<notin> set (map key (filter (\<lambda>r. pk r \<noteq> pk ?k2) (key_rows ?db1)))"
      using fresh by auto
    have up: "update_row ?db1 ?k2 =
        (?db1\<lparr>key_rows := map (\<lambda>r. if pk r = pk ?k2 then ?k2 else r) (key_rows ?db1)\<rparr>, Inr ?k2)"
      unfolding update_row_def using nk grp by simp
    have rows: "map (\<lambda>r. if pk r = pk ?k2 then ?k2 else r) (key_rows ?db1) = key_rows db @ [?k2]"
      using fresh_pk(2) [OF wf] by simp
    have s2: "model_save ?db1 now ?k2 = (db\<lparr>key_rows := key_rows db @ [?k2], next_id := Suc (next_id db)\<rparr>, Inr ?k2)"
      unfolding model_save_def up rows by simp
    show ?thesis
      unfolding de using s1 rg True t s2 ar by (simp add: save_def)
  qed
  show ?thesis
    unfolding generate_def get_generator_eq using G sv by simp
qed

text \<open>
  When the arithmetic of \<open>save\<close> overflows, \<open>generate\<close> has inserted the row, without an
  expiry, and raises \<open>OverflowError\<close>.
\<close>

lemma generate_overflow:
  assumes G: "reg (generator g) = Some G"
    and fresh: "G seed args \<notin> set (map key (key_rows db))"
    and grp: "group_rows db (name g) \<noteq> None"
    and unfit: "\<not> expiry_fits g now"
  shows "generate reg db now g seed args =
           (db\<lparr>key_rows := key_rows db @
                  [\<lparr>pk = Some (next_id db), key = G seed args, group_id = name g, fact = None,
                    pub_date = Some now, expires = None, claimed = None, claimed_by = None\<rparr>],
                next_id := Suc (next_id db)\<rparr>,
            Inl OverflowError)"
proof -
  let ?k0 = "\<lparr>pk = None, key = G seed args, group_id = name g, fact = None,
               pub_date = None, expires = None, claimed = None, claimed_by = None\<rparr>"
  let ?k1 = "\<lparr>pk = Some (next_id db), key = G seed args, group_id = name g, fact = None,
               pub_date = Some now, expires = None, claimed = None, claimed_by = None\<rparr>"
  let ?db1 = "db\<lparr>key_rows := key_rows db @ [?k1], next_id := Suc (next_id db)\<rparr>"
  have s1: "model_save db now ?k0 = (?db1, Inr ?k1)"
    using fresh grp by (simp add: model_save_def insert_row_def Let_def)
  have rg: "related_group ?db1 (Some g) ?k1 = Inr g" by (simp add: related_group_def)
  from expiry_unfit [OF unfit] obtain t where t: "ttl g = Some t" "t \<noteq> 0"
    and ov: "timedelta_minutes t = Inl OverflowError
               \<or> (timedelta_minutes t = Inr (minutes_us t)
                   \<and> datetime_add now (minutes_us t) = Inl OverflowError)"
    by blast
  have tr: "truthy_int (ttl g)" using t by (simp add: truthy_int_def)
  have sv: "save db now (Some g) ?k0 = (?db1, Inl OverflowError)"
    using ov
  proof
    assume "timedelta_minutes t = Inl OverflowError"
    then show ?thesis using s1 rg tr t by (simp add: save_def)
  next
    assume "timedelta_minutes t = Inr (minutes_us t)
              \<and> datetime_add now (minutes_us t) = Inl OverflowError"
    then show ?thesis using s1 rg tr t by (simp add: save_def)
  qed
  show ?thesis
    unfolding generate_def get_generator_eq using G sv by simp
qed

lemma generate_unregistered:
  "reg (generator g) = None \<Longrightarrow> generate reg db now g seed args = (db, Inl TypeError)"
  by (simp add: generate_def get_generator_eq)

subsection \<open>Failed claims\<close>

lemma claim_phases:
  "claim db now ks c =
     (case claim_check db now ks of
        Inl e \<Rightarrow> (db, Inl e)
      | Inr k \<Rightarrow> claim_commit db now k c)"
  by (simp add: claim_def claim_check_def claim_commit_def split: sum.splits)

lemma claim_check_Inl:
  "claim_check db now ks = Inl e \<Longrightarrow> claim db now ks c = (db, Inl e)"
  by (simp add: claim_phases)

lemma save_error_cases:
  "save db now cached k = (db', Inl e) \<Longrightarrow>
     e \<in> {IntegrityError, DoesNotExist, TypeError, OverflowError}"
  by (auto simp: save_def model_save_def insert_row_def update_row_def related_group_def Let_def
      timedelta_minutes_def datetime_add_def
      split: prod.splits sum.splits option.splits if_splits)

lemma claim_verification_error:
  assumes "snd (claim db now ks c) = Inl (VerificationError m)"
  shows "fst (claim db now ks c) = db"
proof (cases "claim_check db now ks")
  case (Inl e)
  then show ?thesis by (simp add: claim_phases)
next
  case (Inr k)
  obtain db1 res where sv: "save db now None (k\<lparr>claimed_by := Some c, claimed := Some now\<rparr>) = (db1, res)"
    by (cases "save db now None (k\<lparr>claimed_by := Some c, claimed := Some now\<rparr>)")
  show ?thesis
  proof (cases res)
    case (Inl e)
    with sv save_error_cases have "e \<in> {IntegrityError, DoesNotExist, TypeError, OverflowError}"
      by blast
    with assms Inr sv Inl show ?thesis by (auto simp: claim_phases claim_commit_def)
  next
    case (Inr kg)
    with assms \<open>claim_check db now ks = Inr k\<close> sv show ?thesis
      by (cases kg) (simp add: claim_phases claim_commit_def)
  qed
qed

lemma claim_all_failed:
  "list_all is_verification_error (snd (claim_all db calls)) \<Longrightarrow> fst (claim_all db calls) = db"
proof (induction calls arbitrary: db)
  case Nil
  then show ?case by simp
next
  case (Cons a calls)
  obtain now ks c where a: "a = (now, ks, c)" by (cases a)
  obtain db1 res where c1: "claim db now ks c = (db1, res)" by (cases "claim db now ks c")
  obtain db2 ress where c2: "claim_all db1 calls = (db2, ress)" by (cases "claim_all db1 calls")
  from Cons.prems a c1 c2 have v: "is_verification_error res" and vs: "list_all is_verification_error ress"
    by simp_all
  from v obtain m where "res = Inl (VerificationError m)"
    by (auto simp: is_verification_error_def split: sum.splits error.splits)
  with c1 claim_verification_error [of db now ks c m] have "db1 = db" by simp
  moreover from Cons.IH [of db1] vs c2 have "db2 = db1" by simp
  ultimately show ?case using a c1 c2 by simp
qed

lemma claim_all_after:
  assumes wf: "wf_store db" and k: "k \<in> set (key_rows db)" and cl: "claimed k \<noteq> None"
  shows "claim_all db (map (\<lambda>(n, c). (n, key k, c)) calls) =
           (db, map (\<lambda>(n, c). Inl (VerificationError
                       (if lookup_lte n (expires k) then ExpiredMsg (expires k) else AlreadyClaimedMsg)))
                  calls)"
proof (induction calls)
  case Nil
  then show ?case by simp
next
  case (Cons a calls)
  obtain n c where a: "a = (n, c)" by (cases a)
  have "claim db n (key k) c = (db, Inl (VerificationError
           (if lookup_lte n (expires k) then ExpiredMsg (expires k) else AlreadyClaimedMsg)))"
    using claim_expired [OF wf k] claim_already [OF wf k _ cl] by (cases "lookup_lte n (expires k)") simp_all
  with Cons a show ?case by simp
qed

lemma wf_store_sent: "wf_store (db\<lparr>sent := s\<rparr>) = wf_store db"
  by (simp add: wf_store_def cong: option.case_cong)

subsection \<open>The constraints are kept by every operation\<close>

lemma wf_demo_store: "wf_store demo_store"
  by (simp add: wf_store_def demo_defs)

lemma wf_empty_store: "wf_store empty_store"
  by (simp add: wf_store_def empty_store_def)

lemma claim_cases:
  assumes wf: "wf_store db"
  shows "(\<exists>m. claim db now ks c = (db, Inl (VerificationError m)))
         \<or> (\<exists>r g. r \<in> set (key_rows db) \<and> key r = ks \<and> group_rows db (group_id r) = Some g
               \<and> \<not> lookup_lte now (expires r) \<and> claimed r = None)"
proof (cases "ks \<in> set (map key (key_rows db))")
  case False
  then show ?thesis using claim_missing by blast
next
  case True
  then obtain r where r: "r \<in> set (key_rows db)" "key r = ks" by auto
  from wf r obtain g where g: "group_rows db (group_id r) = Some g" using wf_row(3) by blast
  show ?thesis
  proof (cases "lookup_lte now (expires r)")
    case True
    then show ?thesis using claim_expired [OF wf r(1) True] r(2) by blast
  next
    case ne: False
    show ?thesis
    proof (cases "claimed r")
      case None
      with r g ne show ?thesis by blast
    next
      case (Some t)
      then have "claimed r \<noteq> None" by simp
      from claim_already [OF wf r(1) ne this] r(2) show ?thesis by blast
    qed
  qed
qed

lemma wf_store_claim:
  assumes wf: "wf_store db"
  shows "wf_store (fst (claim db now ks c))"
proof -
  from claim_cases [OF wf, of now ks c]
  consider (err) m where "claim db now ks c = (db, Inl (VerificationError m))"
    | (ok) r g where "r \<in> set (key_rows db)" "key r = ks" "group_rows db (group_id r) = Some g"
        "\<not> lookup_lte now (expires r)" "claimed r = None"
    by blast
  then show ?thesis
  proof cases
    case err
    then show ?thesis using wf by simp
  next
    case ok
    from wf ok(1) obtain p where p: "pub_date r = Some p" using wf_row(2) by blast
    have ow: "wf_store (db\<lparr>key_rows := map (\<lambda>x. if pk x = pk r then k else x) (key_rows db)\<rparr>)"
      if "pk k = pk r" "key k = key r" "group_id k = group_id r" "pub_date k \<noteq> None" for k
      by (rule wf_store_overwrite [OF wf ok(1) that])
    show ?thesis
    proof (cases "expiry_fits g p")
      case True
      have "wf_store (db\<lparr>key_rows := map (\<lambda>x. if pk x = pk r then claimed_row g r now c else x) (key_rows db)\<rparr>)"
        using p by (intro ow) (simp_all add: claimed_row_def)
      then show ?thesis
        using claim_success [OF wf ok(1) ok(4) ok(5) ok(3) p True, of c] ok(2)
        by (simp add: wf_store_sent)
    next
      case False
      have "wf_store (db\<lparr>key_rows := map (\<lambda>x. if pk x = pk r then r\<lparr>claimed_by := Some c, claimed := Some now\<rparr> else x) (key_rows db)\<rparr>)"
        using p by (intro ow) simp_all
      then show ?thesis
        using claim_overflow [OF wf ok(1) ok(4) ok(5) ok(3) p False, of c] ok(2) by simp
    qed
  qed
qed

lemma wf_store_delete_expired:
  "wf_store db \<Longrightarrow> wf_store (objects_delete_expired db now)"
  by (auto simp: wf_store_def objects_delete_expired_def list_all_iff distinct_map_filter
      cong: option.case_cong)

lemma wf_store_save_group:
  "wf_store db \<Longrightarrow> wf_store (save_group db g)"
  by (auto simp: wf_store_def save_group_def list_all_iff cong: option.case_cong)

lemma wf_store_generate:
  assumes wf: "wf_store db"
  shows "wf_store (fst (generate reg db now g seed args))"
proof (cases "reg (generator g)")
  case None
  then show ?thesis using wf by (simp add: generate_unregistered)
next
  case (Some G)
  show ?thesis
  proof (cases "G seed args \<notin> set (map key (key_rows db)) \<and> group_rows db (name g) \<noteq> None")
    case True
    then have f: "G seed args \<notin> set (map key (key_rows db))" and gr: "group_rows db (name g) \<noteq> None"
      by simp_all
    have lt: "\<forall>x\<in>set (key_rows db). pk x \<noteq> Some (next_id db)"
      using fresh_pk(1) [OF wf] by (metis image_eqI list.set_map)
    show ?thesis
    proof (cases "expiry_fits g now")
      case fits: True
      show ?thesis
        unfolding generate_success [where reg = reg and g = g and G = G and seed = seed
            and args = args, OF wf Some f gr fits]
        using wf f gr lt
        by (auto simp: wf_store_def list_all_iff image_iff split: option.splits)
    next
      case unfit: False
      show ?thesis
        unfolding generate_overflow [where reg = reg and g = g and G = G and seed = seed
            and args = args, OF Some f gr unfit]
        using wf f gr lt
        by (auto simp: wf_store_def list_all_iff image_iff split: option.splits)
    qed
  next
    case False
    then have "model_save db now \<lparr>pk = None, key = G seed args, group_id = name g, fact = None,
               pub_date = None, expires = None, claimed = None, claimed_by = None\<rparr> = (db, Inl IntegrityError)"
      by (auto simp: model_save_def insert_row_def)
    then show ?thesis using wf Some by (simp add: generate_def get_generator_eq save_def)
  qed
qed

lemma wf_ancient_store: "wf_store ancient_store"
  by (simp add: wf_store_def demo_defs)

subsection \<open>The overflow of the expiry, on an example\<close>

text \<open>
  A group whose \<open>ttl\<close> is \<open>-2147483648\<close> minutes: \<open>pub_date + ttl\<close> lies before
  \<open>datetime.min\<close>. \<open>generate\<close> inserts the row and raises \<open>OverflowError\<close>; \<open>claim\<close> of
  a stored key of the group writes \<open>claimed\<close> and \<open>claimed_by\<close>, raises \<open>OverflowError\<close>
  and sends no signal.
\<close>

lemma ancient_unfit: "\<not> expiry_fits ancient 0"
  by (simp add: expiry_fits_def ancient_def date_defs)

lemma generate_ancient:
  "generate demo_registry empty_store 0 ancient (Some ''d4'') []
     = (ancient_store, Inl OverflowError)"
proof -
  have G: "demo_registry (generator ancient) = Some echo_generator"
    by (simp add: demo_defs)
  have fresh: "echo_generator (Some ''d4'') [] \<notin> set (map key (key_rows empty_store))"
    by (simp add: demo_defs)
  have grp: "group_rows empty_store (name ancient) \<noteq> None"
    by (simp add: demo_defs)
  show ?thesis
    unfolding generate_overflow [where reg = demo_registry and g = ancient and G = echo_generator
      and seed = "Some ''d4''" and args = "[]", OF G fresh grp ancient_unfit]
    by (simp add: demo_defs)
qed

lemma claim_ancient:
  "claim ancient_store 100 ''d4'' 9
     = (ancient_store\<lparr>key_rows := [row_ancient\<lparr>claimed_by := Some 9, claimed := Some 100\<rparr>]\<rparr>,
        Inl OverflowError)"
proof -
  have r: "row_ancient \<in> set (key_rows ancient_store)" by (simp add: ancient_store_def)
  have ne: "\<not> lookup_lte 100 (expires row_ancient)" by (simp add: lookup_lte_def row_ancient_def)
  have nc: "claimed row_ancient = None" by (simp add: row_ancient_def)
  have g: "group_rows ancient_store (group_id row_ancient) = Some ancient"
    by (simp add: demo_defs)
  have p: "pub_date row_ancient = Some 0" by (simp add: row_ancient_def)
  have k: "key row_ancient = ''d4''" by (simp add: row_ancient_def)
  show ?thesis
    using claim_overflow [OF wf_ancient_store r ne nc g p ancient_unfit, of 9] unfolding k
    by (simp add: ancient_store_def row_ancient_def)
qed

section \<open>The properties\<close>

subsection \<open>C1: the outcomes of \<open>claim\<close> and the order of its checks\<close>



subsection \<open>C2: several claims of one key\<close>

text \<open>
  C2, as the code has it. \<open>claim\<close> reads the row, tests the instance it read, and writes
  the instance back with an unconditional \<open>UPDATE\<close>; nothing makes the three steps one
  unit. When the calls run one after the other on a store that meets the constraints, on
  a key that is stored, unclaimed and unexpired at the first call and for which the
  arithmetic of \<open>save\<close> stays in range, the first call succeeds and every later call
  fails and changes nothing: with the error for a key already claimed when the key (as
  the first call wrote it) has not expired at the time of that call, and with the error
  for an expired key otherwise. Exactly one of the calls succeeds.
\<close>

theorem sequential_claims:
  assumes wf: "wf_store db" and r: "r \<in> set (key_rows db)"
    and ne: "\<not> lookup_lte now (expires r)" and nc: "claimed r = None"
    and g: "group_rows db (group_id r) = Some g"
    and p: "pub_date r = Some p" and fits: "expiry_fits g p"
  shows "\<exists>db1 k1. claim db now (key r) c = (db1, Inr k1)
           \<and> claim_all db ((now, key r, c) # map (\<lambda>(n, c'). (n, key r, c')) calls) =
               (db1, Inr k1 # map (\<lambda>(n, c'). Inl (VerificationError
                       (if lookup_lte n (expires k1) then ExpiredMsg (expires k1) else AlreadyClaimedMsg)))
                  calls)"
proof -
  let ?k1 = "claimed_row g r now c"
  let ?rows = "map (\<lambda>x. if pk x = pk r then ?k1 else x) (key_rows db)"
  let ?db1 = "db\<lparr>key_rows := ?rows, sent := sent db @ [\<lparr>sender = ?k1, claimant = c, group = g\<rparr>]\<rparr>"
  have c1: "claim db now (key r) c = (?db1, Inr ?k1)"
    by (rule claim_success [OF wf r ne nc g p fits])
  have same: "pk ?k1 = pk r" "key ?k1 = key r" "group_id ?k1 = group_id r" "pub_date ?k1 \<noteq> None"
    using p by (simp_all add: claimed_row_def)
  have "wf_store (db\<lparr>key_rows := ?rows\<rparr>)"
    by (rule wf_store_overwrite [OF wf r same])
  then have wf1: "wf_store ?db1" by (simp add: wf_store_sent)
  from wf have d: "distinct (map pk (key_rows db))" by (simp add: wf_store_def)
  have k1: "?k1 \<in> set (key_rows ?db1)"
    using overwrite_row(3) [OF d r same(1)] same(1) by simp
  have cl: "claimed ?k1 \<noteq> None" by (simp add: claimed_row_def)
  have rest: "claim_all ?db1 (map (\<lambda>(n, c'). (n, key r, c')) calls) =
           (?db1, map (\<lambda>(n, c'). Inl (VerificationError
                       (if lookup_lte n (expires ?k1) then ExpiredMsg (expires ?k1) else AlreadyClaimedMsg)))
                  calls)"
    using claim_all_after [OF wf1 k1 cl, of calls] same(2) by simp
  show ?thesis using c1 rest by simp
qed

theorem sequential_claims_witness:
  "wf_store demo_store \<and> row_pending \<in> set (key_rows demo_store)
   \<and> \<not> lookup_lte 100 (expires row_pending) \<and> claimed row_pending = None
   \<and> group_rows demo_store (group_id row_pending) = Some activate_account
   \<and> pub_date row_pending = Some 0 \<and> expiry_fits activate_account 0
   \<and> snd (claim_all demo_store [(100, ''a1'', 8), (101, ''a1'', 9), (102, ''a1'', 8), (3600000000, ''a1'', 9)])
      = [Inr (row_pending\<lparr>claimed := Some 100, claimed_by := Some 8\<rparr>),
         Inl (VerificationError AlreadyClaimedMsg),
         Inl (VerificationError AlreadyClaimedMsg),
         Inl (VerificationError (ExpiredMsg (Some 3600000000)))]"
proof -
  have h: "row_pending \<in> set (key_rows demo_store)" "\<not> lookup_lte 100 (expires row_pending)"
    "claimed row_pending = None"
    "group_rows demo_store (group_id row_pending) = Some activate_account"
    "pub_date row_pending = Some 0" "expiry_fits activate_account 0"
    by (simp_all add: demo_defs lookup_lte_def expiry_fits_def date_defs)
  have k: "key row_pending = ''a1''" by (simp add: row_pending_def)
  have c1: "claim demo_store 100 ''a1'' 8 =
     (demo_store\<lparr>key_rows := [row_pending\<lparr>claimed := Some 100, claimed_by := Some 8\<rparr>, row_claimed, row_forever],
                 sent := [\<lparr>sender = row_pending\<lparr>claimed := Some 100, claimed_by := Some 8\<rparr>, claimant = 8, group = activate_account\<rparr>]\<rparr>,
      Inr (row_pending\<lparr>claimed := Some 100, claimed_by := Some 8\<rparr>))"
    using claim_success [OF wf_demo_store h, of 8]
    by (simp add: demo_defs claimed_row_def new_expires_def minutes_us_def)
  from sequential_claims [OF wf_demo_store h, of 8 "[(101, 9), (102, 8), (3600000000, 9)]"]
  show ?thesis
    unfolding k c1 using wf_demo_store h
    by (auto simp: lookup_lte_def row_pending_def)
qed

text \<open>
  Two calls that both read before either writes: both pass the checks on the row they
  read, both writes succeed, the second overwrites the claimant of the first, and two
  signals are sent.
\<close>

theorem interleaved_claims_counterexample:
  "claim_check demo_store 100 ''a1'' = Inr row_pending
   \<and> claim_check demo_store 101 ''a1'' = Inr row_pending
   \<and> snd (claim_commit demo_store 100 row_pending 8)
       = Inr (row_pending\<lparr>claimed := Some 100, claimed_by := Some 8\<rparr>)
   \<and> snd (claim_commit (fst (claim_commit demo_store 100 row_pending 8)) 101 row_pending 9)
       = Inr (row_pending\<lparr>claimed := Some 101, claimed_by := Some 9\<rparr>)
   \<and> map claimant (sent (fst (claim_commit (fst (claim_commit demo_store 100 row_pending 8)) 101 row_pending 9)))
       = [8, 9]"
proof -
  have chk: "claim_check demo_store 100 ''a1'' = Inr row_pending"
    "claim_check demo_store 101 ''a1'' = Inr row_pending"
    by (simp_all add: claim_check_def objects_get_def qs_filter_def truthy_dt_def lookup_lte_def demo_defs)
  have in1: "row_pending \<in> set (key_rows demo_store)" by (simp add: demo_defs)
  have g: "group_rows demo_store (group_id row_pending) = Some activate_account"
    by (simp add: demo_defs)
  have p: "pub_date row_pending = Some 0" by (simp add: row_pending_def)
  have f: "expiry_fits activate_account 0"
    by (simp add: expiry_fits_def activate_account_def date_defs)
  let ?k8 = "row_pending\<lparr>claimed := Some 100, claimed_by := Some 8\<rparr>"
  let ?k9 = "row_pending\<lparr>claimed := Some 101, claimed_by := Some 9\<rparr>"
  let ?db1 = "demo_store\<lparr>key_rows := [?k8, row_claimed, row_forever]\<rparr>"
  have s1: "save demo_store 100 None (row_pending\<lparr>claimed_by := Some 8, claimed := Some 100\<rparr>)
              = (?db1, Inr (?k8, activate_account))"
    using save_stored [OF wf_demo_store in1 _ _ _ _ g p f, of "row_pending\<lparr>claimed_by := Some 8, claimed := Some 100\<rparr>" 100]
    by (simp add: demo_defs new_expires_def minutes_us_def)
  let ?db1' = "?db1\<lparr>sent := [\<lparr>sender = ?k8, claimant = 8, group = activate_account\<rparr>]\<rparr>"
  have c1: "claim_commit demo_store 100 row_pending 8 = (?db1', Inr ?k8)"
    using s1 by (simp add: claim_commit_def demo_store_def)
  have wf1: "wf_store ?db1'" by (simp add: wf_store_def demo_defs)
  have in2: "?k8 \<in> set (key_rows ?db1')" by simp
  have g2: "group_rows ?db1' (group_id ?k8) = Some activate_account" by (simp add: demo_defs)
  have p2: "pub_date ?k8 = Some 0" by (simp add: row_pending_def)
  let ?db2 = "?db1'\<lparr>key_rows := [?k9, row_claimed, row_forever]\<rparr>"
  have s2: "save ?db1' 101 None (row_pending\<lparr>claimed_by := Some 9, claimed := Some 101\<rparr>)
              = (?db2, Inr (?k9, activate_account))"
    using save_stored [OF wf1 in2 _ _ _ _ g2 p2 f, of "row_pending\<lparr>claimed_by := Some 9, claimed := Some 101\<rparr>" 101]
    by (simp add: demo_defs new_expires_def minutes_us_def)
  have c2: "claim_commit ?db1' 101 row_pending 9
     = (?db2\<lparr>sent := [\<lparr>sender = ?k8, claimant = 8, group = activate_account\<rparr>,
                        \<lparr>sender = ?k9, claimant = 9, group = activate_account\<rparr>]\<rparr>, Inr ?k9)"
    using s2 by (simp add: claim_commit_def)
  show ?thesis unfolding c1 fst_conv snd_conv c2 using chk by simp
qed

subsection \<open>C3: the expiry that \<open>generate\<close> derives\<close>

text \<open>
  C3. When \<open>generate\<close> succeeds (the generator is registered, its key string is new, the
  group is stored and the arithmetic of \<open>save\<close> stays in range), the key it returns is
  in the table, its \<open>pub_date\<close> is \<open>now\<close>, and its \<open>expires\<close> is \<open>pub_date + ttl\<close>
  minutes when the group's \<open>ttl\<close> is set and not zero, and unset when the \<open>ttl\<close> is
  absent. For \<open>ttl = 0\<close> the test \<open>if self.group.ttl:\<close> fails and \<open>expires\<close> stays unset,
  where the docstring of \<open>KeyGroup\<close> lets a key not expire only when \<open>ttl\<close> is \<open>None\<close>.
\<close>

theorem generate_expires:
  assumes wf: "wf_store db" and G: "reg (generator g) = Some G"
    and fresh: "G seed args \<notin> set (map key (key_rows db))"
    and grp: "group_rows db (name g) \<noteq> None"
    and fits: "expiry_fits g now"
  shows "\<exists>db' k. generate reg db now g seed args = (db', Inr k)
           \<and> k \<in> set (key_rows db') \<and> pub_date k = Some now
           \<and> expires k = (case ttl g of
                             None \<Rightarrow> None
                           | Some t \<Rightarrow> if t = 0 then None else Some (now + minutes_us t))"
  unfolding generate_success [where reg = reg and g = g and G = G and seed = seed and args = args,
      OF wf G fresh grp fits]
  by (simp add: derived_expires_def)

text \<open>A group with \<open>ttl = 0\<close>: the generated key has no expiry.\<close>

theorem generate_expires_witness:
  "ttl instant = Some 0
   \<and> generate demo_registry empty_store 7 instant (Some ''k0'') []
      = (empty_store\<lparr>key_rows := [\<lparr>pk = Some 0, key = ''k0'', group_id = ''instant'', fact = None,
                                     pub_date = Some 7, expires = None, claimed = None,
                                     claimed_by = None\<rparr>],
                      next_id := 1\<rparr>,
         Inr \<lparr>pk = Some 0, key = ''k0'', group_id = ''instant'', fact = None,
              pub_date = Some 7, expires = None, claimed = None, claimed_by = None\<rparr>)"
proof -
  have G: "demo_registry (generator instant) = Some echo_generator"
    by (simp add: demo_defs)
  have fresh: "echo_generator (Some ''k0'') [] \<notin> set (map key (key_rows empty_store))"
    by (simp add: demo_defs)
  have grp: "group_rows empty_store (name instant) \<noteq> None"
    by (simp add: demo_defs)
  have fits: "expiry_fits instant 7"
    by (simp add: expiry_fits_def instant_def)
  from generate_expires [where reg = demo_registry and g = instant and G = echo_generator
      and seed = "Some ''k0''" and args = "[]" and now = 7, OF wf_empty_store G fresh grp fits]
  obtain db' k where r: "generate demo_registry empty_store 7 instant (Some ''k0'') [] = (db', Inr k)"
    and e: "expires k = None"
    by (auto simp: instant_def)
  have "generate demo_registry empty_store 7 instant (Some ''k0'') []
      = (empty_store\<lparr>key_rows := [\<lparr>pk = Some 0, key = ''k0'', group_id = ''instant'', fact = None,
                                     pub_date = Some 7, expires = None, claimed = None,
                                     claimed_by = None\<rparr>],
                      next_id := 1\<rparr>,
         Inr \<lparr>pk = Some 0, key = ''k0'', group_id = ''instant'', fact = None,
              pub_date = Some 7, expires = None, claimed = None, claimed_by = None\<rparr>)"
    unfolding generate_success [where reg = demo_registry and g = instant and G = echo_generator
      and seed = "Some ''k0''" and args = "[]", OF wf_empty_store G fresh grp fits]
    by (simp add: demo_defs derived_expires_def)
  with r e show ?thesis by (simp add: instant_def)
qed

subsection \<open>C4: the fact that a group demands\<close>

text \<open>
  C4, as the code has it. \<open>clean()\<close> raises \<open>ValidationError\<close> exactly when the key's
  group has \<open>has_fact\<close> and the key's \<open>fact\<close> is \<open>None\<close> or empty; it only reads.
  \<open>generate\<close> does not call \<open>clean()\<close> and takes no fact: whatever \<open>has_fact\<close> is, when
  the generator is registered, its key string is new, the group is stored and the
  arithmetic of \<open>save\<close> stays in range, it stores a key whose \<open>fact\<close> is \<open>None\<close> and
  returns it.
\<close>

theorem clean_validates_generate_does_not:
  "(clean db cached k = Inl ValidationError \<longleftrightarrow>
      (\<exists>g. related_group db cached k = Inr g \<and> has_fact g \<and> (fact k = None \<or> fact k = Some [])))
   \<and> (wf_store db \<and> reg (generator g) = Some G \<and> G seed args \<notin> set (map key (key_rows db))
        \<and> group_rows db (name g) \<noteq> None \<and> expiry_fits g now \<longrightarrow>
       (\<exists>db' k'. generate reg db now g seed args = (db', Inr k')
          \<and> fact k' = None \<and> k' \<in> set (key_rows db')))"
proof (intro conjI impI)
  show "clean db cached k = Inl ValidationError \<longleftrightarrow>
      (\<exists>g. related_group db cached k = Inr g \<and> has_fact g \<and> (fact k = None \<or> fact k = Some []))"
    by (auto simp: clean_def truthy_str_def related_group_def split: sum.splits option.splits)
next
  assume a: "wf_store db \<and> reg (generator g) = Some G \<and> G seed args \<notin> set (map key (key_rows db))
        \<and> group_rows db (name g) \<noteq> None \<and> expiry_fits g now"
  then have wf: "wf_store db" and G: "reg (generator g) = Some G"
    and fresh: "G seed args \<notin> set (map key (key_rows db))"
    and grp: "group_rows db (name g) \<noteq> None" and fits: "expiry_fits g now" by simp_all
  show "\<exists>db' k'. generate reg db now g seed args = (db', Inr k')
          \<and> fact k' = None \<and> k' \<in> set (key_rows db')"
    unfolding generate_success [where reg = reg and g = g and G = G and seed = seed and args = args,
      OF wf G fresh grp fits]
    by simp
qed

theorem clean_validates_generate_does_not_witness:
  "clean demo_store None (row_forever\<lparr>fact := None\<rparr>) = Inl ValidationError
   \<and> clean demo_store None (row_forever\<lparr>fact := Some []\<rparr>) = Inl ValidationError
   \<and> clean demo_store None row_forever = Inr ()
   \<and> clean demo_store None row_pending = Inr ()
   \<and> expiry_fits verify_email 7
   \<and> (\<exists>db' k'. generate demo_registry empty_store 7 verify_email (Some ''k1'') [] = (db', Inr k')
          \<and> fact k' = None \<and> k' \<in> set (key_rows db'))"
proof -
  note t = clean_validates_generate_does_not
  have a: "clean demo_store None (row_forever\<lparr>fact := None\<rparr>) = Inl ValidationError"
    using t [where db = demo_store and cached = None and k = "row_forever\<lparr>fact := None\<rparr>",
        THEN conjunct1]
    by (simp add: related_group_def demo_defs)
  have b: "clean demo_store None (row_forever\<lparr>fact := Some []\<rparr>) = Inl ValidationError"
    using t [where db = demo_store and cached = None and k = "row_forever\<lparr>fact := Some []\<rparr>",
        THEN conjunct1]
    by (simp add: related_group_def demo_defs)
  have c: "clean demo_store None row_forever = Inr ()" "clean demo_store None row_pending = Inr ()"
    by (simp_all add: clean_def related_group_def truthy_str_def demo_defs)
  have f: "expiry_fits verify_email 7" by (simp add: expiry_fits_def verify_email_def)
  have d: "\<exists>db' k'. generate demo_registry empty_store 7 verify_email (Some ''k1'') [] = (db', Inr k')
          \<and> fact k' = None \<and> k' \<in> set (key_rows db')"
    using t [where db = empty_store and reg = demo_registry and g = verify_email
        and G = echo_generator and seed = "Some ''k1''" and args = "[]" and now = 7, THEN conjunct2]
      wf_empty_store f
    by (simp add: demo_defs)
  from a b c d f show ?thesis by simp
qed

text \<open>
  A group with \<open>has_fact = True\<close>: \<open>generate\<close> stores and returns a key without a fact.
\<close>

theorem generate_skips_clean_counterexample:
  "has_fact verify_email
   \<and> generate demo_registry empty_store 7 verify_email (Some ''k1'') []
      = (empty_store\<lparr>key_rows := [\<lparr>pk = Some 0, key = ''k1'', group_id = ''verify_email'', fact = None,
                                     pub_date = Some 7, expires = None, claimed = None,
                                     claimed_by = None\<rparr>],
                      next_id := 1\<rparr>,
         Inr \<lparr>pk = Some 0, key = ''k1'', group_id = ''verify_email'', fact = None,
              pub_date = Some 7, expires = None, claimed = None, claimed_by = None\<rparr>)"
proof -
  have G: "demo_registry (generator verify_email) = Some echo_generator"
    by (simp add: demo_defs)
  have fresh: "echo_generator (Some ''k1'') [] \<notin> set (map key (key_rows empty_store))"
    by (simp add: demo_defs)
  have grp: "group_rows empty_store (name verify_email) \<noteq> None"
    by (simp add: demo_defs)
  have fits: "expiry_fits verify_email 7" by (simp add: expiry_fits_def verify_email_def)
  show ?thesis
    unfolding generate_success [where reg = demo_registry and g = verify_email and G = echo_generator
      and seed = "Some ''k1''" and args = "[]", OF wf_empty_store G fresh grp fits]
    by (simp add: demo_defs derived_expires_def)
qed

subsection \<open>C5: a generator that is not registered\<close>

text \<open>
  C5, as the code has it. \<open>get_generator()\<close> never raises: it returns the registered
  generator class when the group's generator name is registered, and \<open>None\<close> when it is
  not. \<open>generate\<close> on a group whose generator is not registered then raises \<open>TypeError\<close>
  (it calls \<open>None\<close>) and leaves the store as it was.
\<close>

theorem get_generator_lookup:
  "get_generator reg g = Inr (reg (generator g))
   \<and> (reg (generator g) = None \<longrightarrow> generate reg db now g seed args = (db, Inl TypeError))"
  by (simp add: get_generator_eq generate_unregistered)

theorem get_generator_lookup_witness:
  "get_generator demo_registry activate_account = Inr (Some echo_generator)
   \<and> get_generator demo_registry (activate_account\<lparr>generator := ''sha1-hex''\<rparr>) = Inr None
   \<and> generate demo_registry demo_store 7 (activate_account\<lparr>generator := ''sha1-hex''\<rparr>) None []
      = (demo_store, Inl TypeError)"
  using get_generator_lookup [of demo_registry activate_account]
    get_generator_lookup [of demo_registry "activate_account\<lparr>generator := ''sha1-hex''\<rparr>" demo_store 7 None "[]"]
  by (simp add: demo_registry_def activate_account_def)

text \<open>
  The group of the demo with a generator name that the registry does not have.
\<close>

theorem get_generator_unregistered_counterexample:
  "get_generator demo_registry (activate_account\<lparr>generator := ''sha1-hex''\<rparr>) = Inr None
   \<and> generate demo_registry demo_store 7 (activate_account\<lparr>generator := ''sha1-hex''\<rparr>) None []
      = (demo_store, Inl TypeError)"
  by (simp add: get_generator_eq generate_unregistered demo_defs)

subsection \<open>C6: the three views\<close>

text \<open>
  C6. For every table of keys and every time \<open>now\<close>: \<open>expired()\<close> is exactly the rows
  whose \<open>expires\<close> is set and \<open>\<le> now\<close>; \<open>available()\<close> is exactly the rows whose
  \<open>claimed\<close> is absent and whose \<open>expires\<close> is absent or \<open>> now\<close>; \<open>claimed()\<close> is
  exactly the rows whose \<open>claimed\<close> is set.
\<close>

theorem views_select:
  "objects_expired db now = filter (\<lambda>r. \<exists>e. expires r = Some e \<and> e \<le> now) (key_rows db)
   \<and> objects_available db now =
       filter (\<lambda>r. claimed r = None \<and> (expires r = None \<or> (\<exists>e. expires r = Some e \<and> now < e))) (key_rows db)
   \<and> objects_claimed db = filter (\<lambda>r. \<exists>t. claimed r = Some t) (key_rows db)"
proof -
  have e: "objects_expired db now = filter (\<lambda>r. \<exists>e. expires r = Some e \<and> e \<le> now) (key_rows db)"
    unfolding objects_expired_def qs_filter_def qs_exclude_def get_query_set_def filter_filter
    by (rule filter_cong) (auto simp: lookup_lte_iff)
  have a: "objects_available db now =
       filter (\<lambda>r. claimed r = None \<and> (expires r = None \<or> (\<exists>e. expires r = Some e \<and> now < e))) (key_rows db)"
    unfolding objects_available_def qs_filter_def get_query_set_def filter_filter
    by (rule filter_cong) (auto simp: lookup_gt_iff)
  have c: "objects_claimed db = filter (\<lambda>r. \<exists>t. claimed r = Some t) (key_rows db)"
    unfolding objects_claimed_def qs_exclude_def get_query_set_def
    by (rule filter_cong) auto
  from e a c show ?thesis by blast
qed

theorem views_select_witness:
  "objects_expired demo_store 3600000000 = [row_pending, row_claimed]
   \<and> objects_available demo_store 3600000000 = [row_forever]
   \<and> objects_claimed demo_store = [row_claimed]"
  using views_select [of demo_store 3600000000] by (simp add: demo_defs)

subsection \<open>C7: how the views overlap\<close>

text \<open>
  C7, as the code has it. \<open>available()\<close> shares no row with \<open>expired()\<close> and none with
  \<open>claimed()\<close>, and every row of the table is in at least one of the three views.
  \<open>expired()\<close> and \<open>claimed()\<close> are not disjoint.
\<close>

theorem views_cover:
  "set (objects_available db now) \<inter> set (objects_expired db now) = {}
   \<and> set (objects_available db now) \<inter> set (objects_claimed db) = {}
   \<and> set (objects_available db now) \<union> set (objects_expired db now) \<union> set (objects_claimed db)
       = set (key_rows db)"
proof -
  have d1: "set (objects_available db now) \<inter> set (objects_expired db now) = {}"
    by (auto simp: objects_available_def objects_expired_def qs_filter_def qs_exclude_def
        get_query_set_def lookup_lte_iff lookup_gt_iff)
  have d2: "set (objects_available db now) \<inter> set (objects_claimed db) = {}"
    by (auto simp: objects_available_def objects_claimed_def qs_filter_def qs_exclude_def
        get_query_set_def)
  have c: "set (objects_available db now) \<union> set (objects_expired db now) \<union> set (objects_claimed db)
       = set (key_rows db)"
    by (auto simp: objects_available_def objects_expired_def objects_claimed_def qs_filter_def
        qs_exclude_def get_query_set_def lookup_lte_iff lookup_gt_iff)
  from d1 d2 c show ?thesis by blast
qed

theorem views_cover_witness:
  "set (objects_available demo_store 3600000000) \<inter> set (objects_expired demo_store 3600000000) = {}
   \<and> set (objects_available demo_store 3600000000) \<inter> set (objects_claimed demo_store) = {}
   \<and> set (objects_available demo_store 3600000000) \<union> set (objects_expired demo_store 3600000000)
        \<union> set (objects_claimed demo_store) = {row_pending, row_claimed, row_forever}"
  using views_cover [of demo_store 3600000000] by (simp add: demo_store_def)

text \<open>
  A key that was claimed and whose expiry has passed since is both in \<open>expired()\<close> and in
  \<open>claimed()\<close>.
\<close>

theorem views_overlap_counterexample:
  "row_claimed \<in> set (objects_expired demo_store 3600000000)
   \<and> row_claimed \<in> set (objects_claimed demo_store)"
  by (simp add: objects_expired_def objects_claimed_def qs_filter_def qs_exclude_def
      get_query_set_def lookup_lte_def demo_defs)

subsection \<open>C8: the expiry of a stored key\<close>

text \<open>
  C8, as the code has it. Saving a group, with whatever \<open>ttl\<close>, changes no stored key.
  But the expiry of a stored key is not fixed: a claim saves the key again, and \<open>save\<close>
  derives \<open>expires\<close> from the key's \<open>pub_date\<close> and the \<open>ttl\<close> that the group's row has
  at that moment. On a store that meets the constraints, for a stored key that is
  unclaimed and unexpired and whose group's present \<open>ttl\<close> is not zero, with the
  arithmetic of \<open>save\<close> in range: the claim succeeds and changes no other row; when the
  present \<open>ttl\<close> is absent it leaves \<open>expires\<close> as it is; when the present \<open>ttl\<close> is set it
  sets \<open>expires\<close> to \<open>pub_date + ttl\<close>, so that \<open>expires\<close> is unchanged exactly when it
  had that value already. The case of a \<open>ttl\<close> of zero is left out here.
\<close>

theorem expires_after_claim:
  assumes wf: "wf_store db" and r: "r \<in> set (key_rows db)"
    and ne: "\<not> lookup_lte now (expires r)" and nc: "claimed r = None"
    and g: "group_rows db (group_id r) = Some g" and p: "pub_date r = Some p"
    and nz: "ttl g \<noteq> Some 0" and fits: "expiry_fits g p"
  shows "\<exists>db' k'. claim db now (key r) c = (db', Inr k')
           \<and> key_rows db' = map (\<lambda>x. if pk x = pk r then k' else x) (key_rows db)
           \<and> expires k' = (case ttl g of
                              None \<Rightarrow> expires r
                            | Some t \<Rightarrow> Some (p + minutes_us t))
           \<and> (expires k' = expires r \<longleftrightarrow>
                (case ttl g of None \<Rightarrow> True | Some t \<Rightarrow> expires r = Some (p + minutes_us t)))
           \<and> key_rows (save_group db g') = key_rows db"
proof -
  have e: "expires (claimed_row g r now c) = (case ttl g of
                              None \<Rightarrow> expires r
                            | Some t \<Rightarrow> Some (p + minutes_us t))"
    using p nz by (simp add: claimed_row_def new_expires_def split: option.splits)
  have u: "expires (claimed_row g r now c) = expires r \<longleftrightarrow>
             (case ttl g of None \<Rightarrow> True | Some t \<Rightarrow> expires r = Some (p + minutes_us t))"
    unfolding e by (auto split: option.splits)
  have s: "key_rows (save_group db g') = key_rows db" by (simp add: save_group_def)
  show ?thesis
    unfolding claim_success [OF wf r ne nc g p fits] using e u s by simp
qed

theorem expires_after_claim_witness:
  "wf_store demo_store \<and> row_pending \<in> set (key_rows demo_store)
   \<and> \<not> lookup_lte 100 (expires row_pending) \<and> claimed row_pending = None
   \<and> group_rows demo_store (group_id row_pending) = Some activate_account
   \<and> pub_date row_pending = Some 0
   \<and> ttl activate_account \<noteq> Some 0 \<and> expiry_fits activate_account 0
   \<and> (\<exists>db' k'. claim demo_store 100 ''a1'' 9 = (db', Inr k') \<and> expires k' = Some 3600000000
          \<and> expires k' = expires row_pending
          \<and> map expires (key_rows db') = map expires (key_rows demo_store))"
proof -
  have h: "row_pending \<in> set (key_rows demo_store)" "\<not> lookup_lte 100 (expires row_pending)"
    "claimed row_pending = None" "group_rows demo_store (group_id row_pending) = Some activate_account"
    "pub_date row_pending = Some 0" "ttl activate_account \<noteq> Some 0"
    "expiry_fits activate_account 0"
    by (simp_all add: demo_defs lookup_lte_def expiry_fits_def date_defs)
  have k: "key row_pending = ''a1''" by (simp add: row_pending_def)
  from expires_after_claim [OF wf_demo_store h, of 9 activate_account]
  obtain db' k' where c: "claim demo_store 100 ''a1'' 9 = (db', Inr k')"
    and rows: "key_rows db' = map (\<lambda>x. if pk x = pk row_pending then k' else x) (key_rows demo_store)"
    and e: "expires k' = Some 3600000000"
    unfolding k by (auto simp: activate_account_def minutes_us_def)
  have e': "expires k' = expires row_pending" using e by (simp add: row_pending_def)
  have "map expires (key_rows db') = map expires (key_rows demo_store)"
    unfolding rows using e' by (simp add: demo_defs)
  then show ?thesis using wf_demo_store h c e e' by simp
qed

text \<open>
  A key generated in a group with \<open>ttl = 60\<close>, the group's \<open>ttl\<close> then set to \<open>120\<close>, the
  key then claimed: the stored expiry moves from 60 to 120 minutes after \<open>pub_date\<close>.
\<close>

theorem claim_after_ttl_change_counterexample:
  "generate demo_registry empty_store 0 activate_account (Some ''a1'') []
     = (empty_store\<lparr>key_rows := [row_pending], next_id := 1\<rparr>, Inr row_pending)
   \<and> expires row_pending = Some 3600000000
   \<and> key_rows (fst (claim (save_group (empty_store\<lparr>key_rows := [row_pending], next_id := 1\<rparr>)
                                       (activate_account\<lparr>ttl := Some 120\<rparr>))
                           100 ''a1'' 9))
     = [row_pending\<lparr>expires := Some 7200000000, claimed := Some 100, claimed_by := Some 9\<rparr>]"
proof -
  have G: "demo_registry (generator activate_account) = Some echo_generator"
    by (simp add: demo_defs)
  have fresh: "echo_generator (Some ''a1'') [] \<notin> set (map key (key_rows empty_store))"
    by (simp add: demo_defs)
  have grp: "group_rows empty_store (name activate_account) \<noteq> None"
    by (simp add: demo_defs)
  have fits: "expiry_fits activate_account 0"
    by (simp add: expiry_fits_def activate_account_def date_defs)
  have gen: "generate demo_registry empty_store 0 activate_account (Some ''a1'') []
     = (empty_store\<lparr>key_rows := [row_pending], next_id := 1\<rparr>, Inr row_pending)"
    unfolding generate_success [where reg = demo_registry and g = activate_account
      and G = echo_generator and seed = "Some ''a1''" and args = "[]", OF wf_empty_store G fresh grp fits]
    by (simp add: demo_defs derived_expires_def minutes_us_def)
  let ?db = "save_group (empty_store\<lparr>key_rows := [row_pending], next_id := 1\<rparr>)
                        (activate_account\<lparr>ttl := Some 120\<rparr>)"
  have wf: "wf_store ?db" by (simp add: wf_store_def save_group_def demo_defs)
  have r: "row_pending \<in> set (key_rows ?db)" by (simp add: save_group_def)
  have ne: "\<not> lookup_lte 100 (expires row_pending)" by (simp add: lookup_lte_def row_pending_def)
  have nc: "claimed row_pending = None" by (simp add: row_pending_def)
  have g: "group_rows ?db (group_id row_pending) = Some (activate_account\<lparr>ttl := Some 120\<rparr>)"
    by (simp add: save_group_def demo_defs)
  have p: "pub_date row_pending = Some 0" by (simp add: row_pending_def)
  have fits2: "expiry_fits (activate_account\<lparr>ttl := Some 120\<rparr>) 0"
    by (simp add: expiry_fits_def activate_account_def date_defs)
  have k: "key row_pending = ''a1''" by (simp add: row_pending_def)
  have cl: "key_rows (fst (claim ?db 100 ''a1'' 9))
     = [row_pending\<lparr>expires := Some 7200000000, claimed := Some 100, claimed_by := Some 9\<rparr>]"
    using claim_success [OF wf r ne nc g p fits2, of 9] unfolding k
    by (simp add: save_group_def claimed_row_def new_expires_def minutes_us_def demo_defs)
  have e: "expires row_pending = Some 3600000000" by (simp add: row_pending_def)
  from gen e cl show ?thesis by simp
qed

subsection \<open>C9: \<open>delete_expired\<close>\<close>

text \<open>
  C9. \<open>delete_expired()\<close> removes exactly the rows that \<open>expired()\<close> selects: every row
  whose \<open>expires\<close> is set and \<open>\<le> now\<close> is deleted, claimed or not, and every other
  row stays in the table unchanged and in place; the groups, the sequence and the
  signals sent are untouched.
\<close>

theorem delete_expired_removes:
  "key_rows (objects_delete_expired db now)
     = filter (\<lambda>r. \<not> (\<exists>e. expires r = Some e \<and> e \<le> now)) (key_rows db)
   \<and> set (key_rows (objects_delete_expired db now))
     = set (key_rows db) - set (objects_expired db now)
   \<and> group_rows (objects_delete_expired db now) = group_rows db
   \<and> next_id (objects_delete_expired db now) = next_id db
   \<and> sent (objects_delete_expired db now) = sent db"
proof -
  have l: "key_rows (objects_delete_expired db now)
     = filter (\<lambda>r. \<not> (\<exists>e. expires r = Some e \<and> e \<le> now)) (key_rows db)"
    unfolding objects_delete_expired_def qs_filter_def
    by (simp, rule filter_cong) (auto simp: lookup_lte_iff)
  have s: "set (key_rows (objects_delete_expired db now))
     = set (key_rows db) - set (objects_expired db now)"
    unfolding l by (auto simp: objects_expired_def qs_filter_def qs_exclude_def
        get_query_set_def lookup_lte_iff)
  show ?thesis using l s by (simp add: objects_delete_expired_def)
qed

theorem delete_expired_removes_witness:
  "key_rows (objects_delete_expired demo_store 3600000000) = [row_forever]
   \<and> key_rows (objects_delete_expired demo_store 3599999999) = [row_pending, row_claimed, row_forever]"
  using delete_expired_removes [of demo_store 3600000000]
        delete_expired_removes [of demo_store 3599999999]
  by (simp add: demo_defs)

subsection \<open>C10: a failed claim writes nothing\<close>

text \<open>
  C10. A call of \<open>claim\<close> that raises a \<open>VerificationError\<close> (the key does not exist, has
  expired, or is already claimed) leaves the whole store as it was, and so does any run
  of calls that all fail so: all three raises come before the write.
\<close>

theorem failed_claims_no_write:
  "(snd (claim db now ks c) = Inl (VerificationError m) \<longrightarrow> fst (claim db now ks c) = db)
   \<and> (list_all is_verification_error (snd (claim_all db calls)) \<longrightarrow> fst (claim_all db calls) = db)"
proof (intro conjI impI)
  assume "snd (claim db now ks c) = Inl (VerificationError m)"
  then show "fst (claim db now ks c) = db" by (rule claim_verification_error)
next
  assume "list_all is_verification_error (snd (claim_all db calls))"
  then show "fst (claim_all db calls) = db" by (rule claim_all_failed)
qed

theorem failed_claims_no_write_witness:
  "snd (claim_all demo_store [(100, ''zz'', 9), (3600000000, ''a1'', 9), (100, ''b2'', 9)])
     = [Inl (VerificationError (DoesNotExistMsg ''zz'')),
        Inl (VerificationError (ExpiredMsg (Some 3600000000))),
        Inl (VerificationError AlreadyClaimedMsg)]
   \<and> fst (claim_all demo_store [(100, ''zz'', 9), (3600000000, ''a1'', 9), (100, ''b2'', 9)])
     = demo_store
   \<and> claimed row_pending = None \<and> claimed_by row_pending = None"
proof -
  have in1: "row_pending \<in> set (key_rows demo_store)" "row_claimed \<in> set (key_rows demo_store)"
    by (simp_all add: demo_store_def)
  have a: "claim demo_store 100 ''zz'' 9 = (demo_store, Inl (VerificationError (DoesNotExistMsg ''zz'')))"
    by (rule claim_missing) (simp add: demo_defs)
  have b: "claim demo_store 3600000000 ''a1'' 9
       = (demo_store, Inl (VerificationError (ExpiredMsg (Some 3600000000))))"
    using claim_expired [OF wf_demo_store in1(1), of 3600000000 9]
    by (simp add: lookup_lte_def row_pending_def)
  have c: "claim demo_store 100 ''b2'' 9 = (demo_store, Inl (VerificationError AlreadyClaimedMsg))"
    using claim_already [OF wf_demo_store in1(2), of 100 9]
    by (simp add: lookup_lte_def row_claimed_def)
  have res: "claim_all demo_store [(100, ''zz'', 9), (3600000000, ''a1'', 9), (100, ''b2'', 9)]
     = (demo_store, [Inl (VerificationError (DoesNotExistMsg ''zz'')),
        Inl (VerificationError (ExpiredMsg (Some 3600000000))),
        Inl (VerificationError AlreadyClaimedMsg)])"
    by (simp add: a b c)
  have "fst (claim_all demo_store [(100, ''zz'', 9), (3600000000, ''a1'', 9), (100, ''b2'', 9)])
     = demo_store"
    using failed_claims_no_write [THEN conjunct2,
        of demo_store "[(100, ''zz'', 9), (3600000000, ''a1'', 9), (100, ''b2'', 9)]"]
    unfolding res by (simp add: is_verification_error_def)
  with res show ?thesis by (simp add: row_pending_def)
qed

end
